theory Spec2Isabelle
  imports Main "HOL-Library.AList" "HOL-Library.Char_ord" "HOL-Library.List_Lexorder"
begin

section \<open>The CSS model (internal/css/types.go)\<close>

text \<open>
  Strings are byte strings (\<^typ>\<open>string\<close>). The library functions
  \<^verbatim>\<open>strings.ToLower\<close> and \<^verbatim>\<open>strings.TrimSpace\<close> are modelled on ASCII text:
  bytes from 128 on are neither folded to lower case nor trimmed as white space.

  A Go map is an association list: a lookup is \<^const>\<open>map_of\<close>, an assignment
  \<^verbatim>\<open>m[k] = v\<close> is \<^const>\<open>AList.update\<close>, and a \<^verbatim>\<open>for k, v := range m\<close> loop
  visits the list in its order. Go leaves the iteration order of a map open, so a
  property of the program is a property for every order of the list; two lists are
  the same Go map when they agree under \<^const>\<open>map_of\<close> and have distinct keys.
\<close>

record Specificity =
  Inline :: int
  IDs :: int
  Classes :: int
  Elements :: int
  SpecImportant :: bool

record Declaration =
  Property :: string
  Value :: string
  Important :: bool

type_synonym Styles = "(string \<times> Declaration) list"

record Rule =
  Selector :: string
  RuleSpecificity :: Specificity
  Declarations :: Styles
  SourceOrder :: int

record MatchResult =
  MatchRule :: Rule
  MatchSpecificity :: Specificity
  MatchDeclarations :: Styles

text \<open>\<^verbatim>\<open>Specificity.Compare\<close>: -1, 0 or 1.\<close>

definition Compare :: "Specificity \<Rightarrow> Specificity \<Rightarrow> int" where
  "Compare s other =
     (if SpecImportant s \<and> \<not> SpecImportant other then 1
      else if \<not> SpecImportant s \<and> SpecImportant other then - 1
      else if Inline s \<noteq> Inline other then (if Inline s > Inline other then 1 else - 1)
      else if IDs s \<noteq> IDs other then (if IDs s > IDs other then 1 else - 1)
      else if Classes s \<noteq> Classes other then (if Classes s > Classes other then 1 else - 1)
      else if Elements s \<noteq> Elements other then (if Elements s > Elements other then 1 else - 1)
      else 0)"

definition SpecificityFromInline :: "bool \<Rightarrow> Specificity" where
  "SpecificityFromInline important =
     \<lparr>Inline = 1000, IDs = 0, Classes = 0, Elements = 0, SpecImportant = important\<rparr>"

section \<open>The cascade (internal/resolver/resolver.go)\<close>

record cascadeEntry =
  specificity :: Specificity
  sourceOrder :: int
  important :: bool
  isInline :: bool

text \<open>The zero value of \<^verbatim>\<open>cascadeEntry\<close>, which a Go map returns for a missing key.\<close>

definition zeroEntry :: cascadeEntry where
  "zeroEntry =
     \<lparr>specificity = \<lparr>Inline = 0, IDs = 0, Classes = 0, Elements = 0, SpecImportant = False\<rparr>,
      sourceOrder = 0, important = False, isInline = False\<rparr>"

definition lookupEntry :: "(string \<times> cascadeEntry) list \<Rightarrow> string \<Rightarrow> cascadeEntry" where
  "lookupEntry winningSpecs property =
     (case map_of winningSpecs property of None \<Rightarrow> zeroEntry | Some e \<Rightarrow> e)"

definition shouldReplace :: "string \<Rightarrow> cascadeEntry \<Rightarrow> cascadeEntry \<Rightarrow> bool" where
  "shouldReplace property newEntry existingEntry =
     (if Inline (specificity existingEntry) = 0 \<and> IDs (specificity existingEntry) = 0 \<and>
         Classes (specificity existingEntry) = 0 \<and> Elements (specificity existingEntry) = 0
      then True
      else if important newEntry \<and> \<not> important existingEntry then True
      else if \<not> important newEntry \<and> important existingEntry then False
      else if Compare (specificity newEntry) (specificity existingEntry) > 0 then True
      else if Compare (specificity newEntry) (specificity existingEntry) < 0 then False
      else sourceOrder newEntry \<ge> sourceOrder existingEntry)"

text \<open>
  The state of \<^verbatim>\<open>applyCascade\<close>: the maps \<^verbatim>\<open>winningDeclarations\<close> and
  \<^verbatim>\<open>winningSpecs\<close>.
\<close>

type_synonym cascadeState = "Styles \<times> (string \<times> cascadeEntry) list"

text \<open>The body shared by both loops: the test and the two assignments.\<close>

definition cascadeStep :: "string \<Rightarrow> Declaration \<Rightarrow> cascadeEntry \<Rightarrow> cascadeState \<Rightarrow> cascadeState" where
  "cascadeStep property declaration entry st =
     (if shouldReplace property entry (lookupEntry (snd st) property)
      then (AList.update property declaration (fst st), AList.update property entry (snd st))
      else st)"

text \<open>The inner loop over \<^verbatim>\<open>match.Declarations\<close>.\<close>

fun applyDeclarations :: "MatchResult \<Rightarrow> Styles \<Rightarrow> cascadeState \<Rightarrow> cascadeState" where
  "applyDeclarations match [] st = st"
| "applyDeclarations match ((property, declaration) # rest) st =
     applyDeclarations match rest
       (cascadeStep property declaration
          \<lparr>specificity = MatchSpecificity match, sourceOrder = SourceOrder (MatchRule match),
           important = Important declaration, isInline = False\<rparr> st)"

text \<open>Step 1: the loop over the matches.\<close>

fun applyMatches :: "MatchResult list \<Rightarrow> cascadeState \<Rightarrow> cascadeState" where
  "applyMatches [] st = st"
| "applyMatches (match # rest) st =
     applyMatches rest (applyDeclarations match (MatchDeclarations match) st)"

text \<open>Step 2: the loop over the inline styles.\<close>

fun applyInline :: "Styles \<Rightarrow> cascadeState \<Rightarrow> cascadeState" where
  "applyInline [] st = st"
| "applyInline ((property, declaration) # rest) st =
     applyInline rest
       (cascadeStep property declaration
          \<lparr>specificity = SpecificityFromInline (Important declaration), sourceOrder = 999999,
           important = Important declaration, isInline = True\<rparr> st)"

definition applyCascade :: "MatchResult list \<Rightarrow> Styles \<Rightarrow> Styles" where
  "applyCascade matches inlineStyles = fst (applyInline inlineStyles (applyMatches matches ([], [])))"

subsection \<open>Merging for the write-back\<close>

definition shouldReplaceDeclaration :: "Declaration \<Rightarrow> Declaration \<Rightarrow> bool" where
  "shouldReplaceDeclaration existing new =
     (if Important new \<and> \<not> Important existing then True
      else if \<not> Important new \<and> Important existing then False
      else True)"

text \<open>The first loop of \<^verbatim>\<open>MergeStyles\<close> copies \<^verbatim>\<open>existing\<close> into \<^verbatim>\<open>merged\<close>.\<close>

fun mergeExisting :: "Styles \<Rightarrow> Styles \<Rightarrow> Styles" where
  "mergeExisting [] merged = merged"
| "mergeExisting ((property, declaration) # rest) merged =
     mergeExisting rest (AList.update property declaration merged)"

text \<open>The second loop adds \<^verbatim>\<open>newStyles\<close>.\<close>

fun mergeNew :: "Styles \<Rightarrow> Styles \<Rightarrow> Styles" where
  "mergeNew [] merged = merged"
| "mergeNew ((property, newDeclaration) # rest) merged =
     mergeNew rest
       (case map_of merged property of
          None \<Rightarrow> AList.update property newDeclaration merged
        | Some existingDeclaration \<Rightarrow>
            if shouldReplaceDeclaration existingDeclaration newDeclaration
            then AList.update property newDeclaration merged
            else merged)"

definition MergeStyles :: "Styles \<Rightarrow> Styles \<Rightarrow> Styles" where
  "MergeStyles existing newStyles = mergeNew newStyles (mergeExisting existing [])"

section \<open>Strings and regular expressions\<close>

text \<open>\<^verbatim>\<open>strings.TrimSpace\<close> and \<^verbatim>\<open>strings.ToLower\<close> on ASCII text.\<close>

definition isAsciiSpace :: "char \<Rightarrow> bool" where
  "isAsciiSpace c = (c \<in> set [CHR 0x09, CHR 0x0A, CHR 0x0B, CHR 0x0C, CHR 0x0D, CHR '' ''])"

definition TrimSpace :: "string \<Rightarrow> string" where
  "TrimSpace s = rev (dropWhile isAsciiSpace (rev (dropWhile isAsciiSpace s)))"

definition lowerChar :: "char \<Rightarrow> char" where
  "lowerChar c =
     (case map_of (zip ''ABCDEFGHIJKLMNOPQRSTUVWXYZ'' ''abcdefghijklmnopqrstuvwxyz'') c of
        None \<Rightarrow> c
      | Some l \<Rightarrow> l)"

definition ToLower :: "string \<Rightarrow> string" where
  "ToLower s = map lowerChar s"


text \<open>\<^verbatim>\<open>strings.Join\<close>.\<close>

fun Join :: "string list \<Rightarrow> string \<Rightarrow> string" where
  "Join [] sep = []"
| "Join [x] sep = x"
| "Join (x # y # ys) sep = x @ sep @ Join (y # ys) sep"

text \<open>
  The character classes of the parser's regular expressions: \<^verbatim>\<open>[a-zA-Z]\<close>,
  \<^verbatim>\<open>[a-zA-Z0-9_-]\<close>, the word characters \<^verbatim>\<open>[0-9A-Za-z_]\<close> that decide \<^verbatim>\<open>\b\<close>, and
  \<^verbatim>\<open>\s\<close>, which is \<^verbatim>\<open>[\t\n\f\r ]\<close> in Go.
\<close>

definition isLetter :: "char \<Rightarrow> bool" where
  "isLetter c = (c \<in> set ''abcdefghijklmnopqrstuvwxyzABCDEFGHIJKLMNOPQRSTUVWXYZ'')"

definition isDigit :: "char \<Rightarrow> bool" where
  "isDigit c = (c \<in> set ''0123456789'')"

definition isNameChar :: "char \<Rightarrow> bool" where
  "isNameChar c = (isLetter c \<or> isDigit c \<or> c = CHR ''_'' \<or> c = CHR ''-'')"

definition isWordChar :: "char \<Rightarrow> bool" where
  "isWordChar c = (isDigit c \<or> isLetter c \<or> c = CHR ''_'')"

definition isRegexSpace :: "char \<Rightarrow> bool" where
  "isRegexSpace c = (c \<in> set [CHR 0x09, CHR 0x0A, CHR 0x0C, CHR 0x0D, CHR '' ''])"

text \<open>
  Each regular expression of \<^verbatim>\<open>NewParser\<close> is a scanner that returns what
  \<^verbatim>\<open>FindAllString\<close> returns: the successive leftmost matches, none overlapping. All
  repetitions in these expressions are greedy and are followed by a character outside
  the repeated class, so a match takes the longest run.

  \<^verbatim>\<open>idRegex\<close> is \<^verbatim>\<open>#[a-zA-Z0-9_-]+\<close>, \<^verbatim>\<open>classRegex\<close> is \<^verbatim>\<open>\.[a-zA-Z0-9_-]+\<close> and
  \<^verbatim>\<open>pseudoClassRegex\<close> is \<^verbatim>\<open>:[a-zA-Z0-9_-]+\<close>: a mark, then one or more name
  characters.
\<close>

lemma length_dropWhile_Suc [termination_simp]: "length (dropWhile P xs) < Suc (length xs)"
  using length_dropWhile_le [of P xs] by simp

lemma length_tl_dropWhile_Suc [termination_simp]: "length (tl (dropWhile P xs)) < Suc (length xs)"
  using length_dropWhile_le [of P xs] by simp

lemma length_dropWhile_minus_Suc [termination_simp]:
  "length (dropWhile P xs) - Suc 0 < Suc (length xs)"
  using length_dropWhile_le [of P xs] by simp

lemma dropWhile_Cons_length [termination_simp]:
  "dropWhile P xs = y # ys \<Longrightarrow> length ys < length xs"
  using length_dropWhile_le [of P xs] by simp

fun findAllMarked :: "char \<Rightarrow> string \<Rightarrow> string list" where
  "findAllMarked mark [] = []"
| "findAllMarked mark (c # cs) =
     (if c = mark \<and> takeWhile isNameChar cs \<noteq> []
      then (c # takeWhile isNameChar cs) # findAllMarked mark (dropWhile isNameChar cs)
      else findAllMarked mark cs)"

definition idRegex :: "string \<Rightarrow> string list" where
  "idRegex s = findAllMarked (CHR ''#'') s"

definition classRegex :: "string \<Rightarrow> string list" where
  "classRegex s = findAllMarked (CHR ''.'') s"

definition pseudoClassRegex :: "string \<Rightarrow> string list" where
  "pseudoClassRegex s = findAllMarked (CHR '':'') s"

text \<open>\<^verbatim>\<open>pseudoElementRegex\<close> is \<^verbatim>\<open>::[a-zA-Z0-9_-]+\<close>.\<close>

fun pseudoElementRegex :: "string \<Rightarrow> string list" where
  "pseudoElementRegex [] = []"
| "pseudoElementRegex [c] = []"
| "pseudoElementRegex (c # d # cs) =
     (if c = CHR '':'' \<and> d = CHR '':'' \<and> takeWhile isNameChar cs \<noteq> []
      then (c # d # takeWhile isNameChar cs) # pseudoElementRegex (dropWhile isNameChar cs)
      else pseudoElementRegex (d # cs))"

text \<open>
  \<^verbatim>\<open>attrRegex\<close> is \<^verbatim>\<open>\[[^\]]*\]\<close>: from an opening bracket to the next closing one.
  An opening bracket with no closing bracket after it starts no match.
\<close>

fun attrRegex :: "string \<Rightarrow> string list" where
  "attrRegex [] = []"
| "attrRegex (c # cs) =
     (if c = CHR ''['' \<and> dropWhile (\<lambda>x. x \<noteq> CHR '']'') cs \<noteq> []
      then (c # takeWhile (\<lambda>x. x \<noteq> CHR '']'') cs @ '']'')
             # attrRegex (tl (dropWhile (\<lambda>x. x \<noteq> CHR '']'') cs))
      else attrRegex cs)"

text \<open>
  \<^verbatim>\<open>elementRegex\<close> is \<^verbatim>\<open>\b[a-zA-Z]+\b\<close>. A word boundary lies between a word character
  and a character that is none (or an end of the text), so a match is a maximal run of
  word characters made of letters only; a run with a digit or an underscore in it holds
  no match.
\<close>

fun elementRegex :: "string \<Rightarrow> string list" where
  "elementRegex [] = []"
| "elementRegex (c # cs) =
     (if isWordChar c
      then (if list_all isLetter (c # takeWhile isWordChar cs)
            then [c # takeWhile isWordChar cs] else [])
           @ elementRegex (dropWhile isWordChar cs)
      else elementRegex cs)"

text \<open>
  \<^verbatim>\<open>ruleRegex\<close> is \<^verbatim>\<open>([^{]+)\{([^}]*)\}\<close>; the scanner returns the two groups of every
  match, as \<^verbatim>\<open>FindAllStringSubmatch\<close> does. A match cannot start at an opening brace;
  from any other character it takes the text up to the next opening brace as the first
  group and the text up to the next closing brace as the second. Where either brace is
  missing there is no further match.
\<close>

function ruleRegex :: "string \<Rightarrow> (string \<times> string) list" where
  "ruleRegex [] = []"
| "ruleRegex (c # cs) =
     (if c = CHR ''{'' then ruleRegex cs
      else (case dropWhile (\<lambda>x. x \<noteq> CHR ''{'') cs of
              [] \<Rightarrow> []
            | _ # body \<Rightarrow>
                (case dropWhile (\<lambda>x. x \<noteq> CHR ''}'') body of
                   [] \<Rightarrow> []
                 | _ # rest \<Rightarrow>
                     (c # takeWhile (\<lambda>x. x \<noteq> CHR ''{'') cs, takeWhile (\<lambda>x. x \<noteq> CHR ''}'') body)
                       # ruleRegex rest)))"
  by pat_completeness auto

termination ruleRegex
proof (relation "measure length")
  show "wf (measure length)" by simp
next
  fix c :: char and cs :: string
  show "(cs, c # cs) \<in> measure length" by simp
next
  fix c :: char and cs :: string and x body y rest
  assume b: "dropWhile (\<lambda>x. x \<noteq> CHR ''{'') cs = x # body"
    and r: "dropWhile (\<lambda>x. x \<noteq> CHR ''}'') body = y # rest"
  have "length rest < length body" using r by (rule dropWhile_Cons_length)
  moreover have "length body < length cs" using b by (rule dropWhile_Cons_length)
  ultimately show "(rest, c # cs) \<in> measure length" by simp
qed

text \<open>
  \<^verbatim>\<open>importantRegex\<close> is \<^verbatim>\<open>!\s*important\s*$\<close>, with no case-folding flag.
  \<^const>\<open>True\<close> from \<open>importantAt\<close> says that the expression matches the whole of
  its argument.
\<close>

definition importantAt :: "string \<Rightarrow> bool" where
  "importantAt s =
     (case s of
        [] \<Rightarrow> False
      | c # cs \<Rightarrow>
          c = CHR ''!'' \<and> take 9 (dropWhile isRegexSpace cs) = ''important'' \<and>
          list_all isRegexSpace (drop 9 (dropWhile isRegexSpace cs)))"

text \<open>\<^verbatim>\<open>importantRegex.MatchString\<close>: the expression matches some suffix.\<close>

fun importantMatchString :: "string \<Rightarrow> bool" where
  "importantMatchString [] = False"
| "importantMatchString (c # cs) = (importantAt (c # cs) \<or> importantMatchString cs)"

text \<open>
  \<^verbatim>\<open>importantRegex.ReplaceAllString(value, "")\<close>: a match runs to the end of the text,
  so what stays is the text before the leftmost match.
\<close>

fun importantReplaceAll :: "string \<Rightarrow> string" where
  "importantReplaceAll [] = []"
| "importantReplaceAll (c # cs) = (if importantAt (c # cs) then [] else c # importantReplaceAll cs)"

text \<open>
  \<^verbatim>\<open>removeComments\<close> deletes the matches of \<^verbatim>\<open>/\*[^*]*\*+([^/*][^*]*\*+)*/\<close>: from
  \<^verbatim>\<open>/*\<close> to the first \<^verbatim>\<open>*/\<close> that starts after it. \<open>afterCommentEnd\<close> returns the text
  behind that first \<^verbatim>\<open>*/\<close>, if there is one.
\<close>

fun afterCommentEnd :: "string \<Rightarrow> string option" where
  "afterCommentEnd [] = None"
| "afterCommentEnd [c] = None"
| "afterCommentEnd (c # d # cs) =
     (if c = CHR ''*'' \<and> d = CHR ''/'' then Some cs else afterCommentEnd (d # cs))"

lemma afterCommentEnd_length [termination_simp]:
  "afterCommentEnd s = Some r \<Longrightarrow> length r < length s"
  by (induction s arbitrary: r rule: afterCommentEnd.induct) (auto split: if_splits)

fun removeComments :: "string \<Rightarrow> string" where
  "removeComments [] = []"
| "removeComments [c] = [c]"
| "removeComments (c # d # cs) =
     (if c = CHR ''/'' \<and> d = CHR ''*''
      then (case afterCommentEnd cs of
              None \<Rightarrow> c # removeComments (d # cs)
            | Some rest \<Rightarrow> removeComments rest)
      else c # removeComments (d # cs))"

text \<open>
  \<^verbatim>\<open>extractAtRules\<close> deletes the matches of \<^verbatim>\<open>@(import|charset|namespace)[^;]+;\<close>: the
  keyword, at least one character that is no semicolon, and the text up to the next
  semicolon.
\<close>

definition atKeyword :: "string \<Rightarrow> string option" where
  "atKeyword s =
     (if take 6 s = ''import'' then Some (drop 6 s)
      else if take 7 s = ''charset'' then Some (drop 7 s)
      else if take 9 s = ''namespace'' then Some (drop 9 s)
      else None)"

definition atRuleEnd :: "string \<Rightarrow> string option" where
  "atRuleEnd s =
     (case atKeyword s of
        None \<Rightarrow> None
      | Some r \<Rightarrow>
          if takeWhile (\<lambda>x. x \<noteq> CHR '';'') r \<noteq> [] \<and> dropWhile (\<lambda>x. x \<noteq> CHR '';'') r \<noteq> []
          then Some (tl (dropWhile (\<lambda>x. x \<noteq> CHR '';'') r))
          else None)"

lemma atRuleEnd_length [termination_simp]:
  "atRuleEnd s = Some r \<Longrightarrow> length r \<le> length s"
proof -
  assume a: "atRuleEnd s = Some r"
  then obtain k where k: "atKeyword s = Some k"
    and r: "r = tl (dropWhile (\<lambda>x. x \<noteq> CHR '';'') k)"
    by (auto simp: atRuleEnd_def split: option.splits if_splits)
  from k have "length k \<le> length s"
    by (auto simp: atKeyword_def split: if_splits)
  moreover have "length r \<le> length k"
    unfolding r using length_dropWhile_le [of "\<lambda>x. x \<noteq> CHR '';''" k] by simp
  ultimately show ?thesis by simp
qed

fun extractAtRules :: "string \<Rightarrow> string" where
  "extractAtRules [] = []"
| "extractAtRules (c # cs) =
     (if c = CHR ''@''
      then (case atRuleEnd cs of
              None \<Rightarrow> c # extractAtRules cs
            | Some rest \<Rightarrow> extractAtRules rest)
      else c # extractAtRules cs)"

section \<open>The CSS parser (internal/css/parser.go)\<close>

text \<open>
  \<^verbatim>\<open>smartSplit\<close>: the loop over the characters with its four variables. The text is
  read rune by rune in Go; on valid UTF-8 that is the same as byte by byte here, since
  the quotes and the delimiter are ASCII.
\<close>

fun smartSplitLoop :: "char \<Rightarrow> string \<Rightarrow> string list \<Rightarrow> string \<Rightarrow> bool \<Rightarrow> char \<Rightarrow> string list" where
  "smartSplitLoop delimiter [] parts current inQuotes quoteChar =
     (if current \<noteq> [] then parts @ [current] else parts)"
| "smartSplitLoop delimiter (char # rest) parts current inQuotes quoteChar =
     (if \<not> inQuotes \<and> (char = CHR 0x22 \<or> char = CHR 0x27)
      then smartSplitLoop delimiter rest parts (current @ [char]) True char
      else if inQuotes \<and> char = quoteChar
      then smartSplitLoop delimiter rest parts (current @ [char]) False quoteChar
      else if \<not> inQuotes \<and> char = delimiter
      then (if current \<noteq> []
            then smartSplitLoop delimiter rest (parts @ [current]) [] inQuotes quoteChar
            else smartSplitLoop delimiter rest parts current inQuotes quoteChar)
      else smartSplitLoop delimiter rest parts (current @ [char]) inQuotes quoteChar)"

definition smartSplit :: "string \<Rightarrow> char \<Rightarrow> string list" where
  "smartSplit s delimiter = smartSplitLoop delimiter s [] [] False (CHR 0x00)"

text \<open>\<^verbatim>\<open>findUnquotedChar\<close>: the index of the first unquoted occurrence, or -1.\<close>

fun findUnquotedLoop :: "char \<Rightarrow> string \<Rightarrow> int \<Rightarrow> bool \<Rightarrow> char \<Rightarrow> int" where
  "findUnquotedLoop char [] i inQuotes quoteChar = - 1"
| "findUnquotedLoop char (c # rest) i inQuotes quoteChar =
     (if \<not> inQuotes \<and> (c = CHR 0x22 \<or> c = CHR 0x27)
      then findUnquotedLoop char rest (i + 1) True c
      else if inQuotes \<and> c = quoteChar
      then findUnquotedLoop char rest (i + 1) False quoteChar
      else if \<not> inQuotes \<and> c = char then i
      else findUnquotedLoop char rest (i + 1) inQuotes quoteChar)"

definition findUnquotedChar :: "string \<Rightarrow> char \<Rightarrow> int" where
  "findUnquotedChar s char = findUnquotedLoop char s 0 False (CHR 0x00)"

text \<open>
  The body of the loop of \<^verbatim>\<open>parseDeclarations\<close> for one piece of the block;
  \<^const>\<open>None\<close> is a \<^verbatim>\<open>continue\<close>.
\<close>

definition parseDeclaration :: "string \<Rightarrow> Declaration option" where
  "parseDeclaration piece =
     (let part = TrimSpace piece in
      if part = [] then None
      else let colonIndex = findUnquotedChar part (CHR '':'') in
      if colonIndex = - 1 then None
      else let property = TrimSpace (take (nat colonIndex) part);
               value = TrimSpace (drop (nat (colonIndex + 1)) part) in
      if property = [] \<or> value = [] then None
      else let important = importantMatchString value in
        Some \<lparr>Property = ToLower property,
              Value = (if important then TrimSpace (importantReplaceAll value) else value),
              Important = important\<rparr>)"

fun parseDeclarationsLoop :: "string list \<Rightarrow> Styles \<Rightarrow> Styles" where
  "parseDeclarationsLoop [] declarations = declarations"
| "parseDeclarationsLoop (part # rest) declarations =
     parseDeclarationsLoop rest
       (case parseDeclaration part of
          None \<Rightarrow> declarations
        | Some d \<Rightarrow> AList.update (Property d) d declarations)"

text \<open>The error result of \<^verbatim>\<open>parseDeclarations\<close> is always \<^verbatim>\<open>nil\<close> and is left out.\<close>

definition parseDeclarations :: "string \<Rightarrow> Styles" where
  "parseDeclarations declarationsText =
     parseDeclarationsLoop (smartSplit declarationsText (CHR '';'')) []"

definition ParseInlineStyle :: "string \<Rightarrow> Styles" where
  "ParseInlineStyle styleAttr = parseDeclarations styleAttr"

definition isPseudoClassKeyword :: "string \<Rightarrow> bool" where
  "isPseudoClassKeyword s =
     (s \<in> set [''hover'', ''focus'', ''active'', ''visited'', ''link'', ''first-child'',
               ''last-child'', ''nth-child'', ''nth-of-type'', ''not''])"

definition isCSSKeyword :: "string \<Rightarrow> bool" where
  "isCSSKeyword s = (s \<in> set [''and'', ''or'', ''not'', ''only'', ''all'', ''screen'', ''print''])"

definition calculateSpecificity :: "string \<Rightarrow> Specificity" where
  "calculateSpecificity selector =
     \<lparr>Inline = 0,
      IDs = int (length (idRegex selector)),
      Classes = int (length (classRegex selector)) + int (length (attrRegex selector))
                + int (length (filter (\<lambda>match. take 2 match \<noteq> ''::'') (pseudoClassRegex selector))),
      Elements = int (length (pseudoElementRegex selector))
                 + int (length (filter (\<lambda>match. \<not> isPseudoClassKeyword (ToLower match)
                                                 \<and> \<not> isCSSKeyword (ToLower match))
                                  (elementRegex selector))),
      SpecImportant = False\<rparr>"

record Stylesheet =
  Rules :: "Rule list"

text \<open>The loop of \<^verbatim>\<open>Parse\<close> over the matches, with its index \<^verbatim>\<open>i\<close>.\<close>

fun parseRules :: "(string \<times> string) list \<Rightarrow> int \<Rightarrow> Rule list \<Rightarrow> Rule list" where
  "parseRules [] i rules = rules"
| "parseRules (match # rest) i rules =
     (let selector = TrimSpace (fst match); declarations = TrimSpace (snd match) in
      if selector = [] \<or> declarations = [] then parseRules rest (i + 1) rules
      else parseRules rest (i + 1)
             (rules @ [\<lparr>Selector = selector,
                        RuleSpecificity = calculateSpecificity selector,
                        Declarations = parseDeclarations declarations,
                        SourceOrder = i\<rparr>]))"

definition Parse :: "string \<Rightarrow> Stylesheet" where
  "Parse cssText = \<lparr>Rules = parseRules (ruleRegex (extractAtRules (removeComments cssText))) 0 []\<rparr>"

definition IsEmailSafeProperty :: "string \<Rightarrow> bool" where
  "IsEmailSafeProperty property =
     (ToLower property \<in> set
        [''color'', ''font-family'', ''font-size'', ''font-weight'', ''font-style'',
         ''text-align'', ''text-decoration'', ''line-height'', ''letter-spacing'',
         ''width'', ''height'', ''padding'', ''padding-top'', ''padding-right'',
         ''padding-bottom'', ''padding-left'', ''margin'', ''margin-top'', ''margin-right'',
         ''margin-bottom'', ''margin-left'',
         ''background'', ''background-color'', ''background-image'',
         ''border'', ''border-top'', ''border-right'', ''border-bottom'', ''border-left'',
         ''border-color'', ''border-style'', ''border-width'',
         ''border-collapse'', ''border-spacing'', ''vertical-align''])"

section \<open>Configuration (internal/config/config.go)\<close>

record Config =
  PreserveMediaQueries :: bool
  PreservePseudoSelectors :: bool
  RemoveStyleTags :: bool
  StripUnusedCSS :: bool
  EmailClientOptimizations :: bool
  PreserveWhitespace :: bool
  TargetEmailClient :: string

definition Default :: Config where
  "Default =
     \<lparr>PreserveMediaQueries = True, PreservePseudoSelectors = True, RemoveStyleTags = False,
      StripUnusedCSS = True, EmailClientOptimizations = True, PreserveWhitespace = True,
      TargetEmailClient = ''generic''\<rparr>"

record EmailClientCompatibility =
  SupportsMediaQueries :: bool
  SupportsPseudoSelectors :: "(string \<times> bool) list"
  RequiresInlineStyles :: bool
  MaxStylesheetSize :: int

definition GetCompatibilityProfile :: "string \<Rightarrow> EmailClientCompatibility" where
  "GetCompatibilityProfile client =
     (if ToLower client = ''outlook'' \<or> ToLower client = ''outlook_desktop'' then
        \<lparr>SupportsMediaQueries = False,
         SupportsPseudoSelectors = [('':hover'', False), ('':focus'', False)],
         RequiresInlineStyles = True, MaxStylesheetSize = 65536\<rparr>
      else if ToLower client = ''gmail'' \<or> ToLower client = ''gmail_web'' then
        \<lparr>SupportsMediaQueries = True,
         SupportsPseudoSelectors = [('':hover'', True), ('':focus'', True)],
         RequiresInlineStyles = False, MaxStylesheetSize = 0\<rparr>
      else if ToLower client = ''apple_mail'' \<or> ToLower client = ''mail_app'' then
        \<lparr>SupportsMediaQueries = True,
         SupportsPseudoSelectors = [('':hover'', True), ('':focus'', True)],
         RequiresInlineStyles = False, MaxStylesheetSize = 0\<rparr>
      else if ToLower client = ''outlook_online'' \<or> ToLower client = ''outlook_web'' then
        \<lparr>SupportsMediaQueries = True,
         SupportsPseudoSelectors = [('':hover'', True), ('':focus'', False)],
         RequiresInlineStyles = True, MaxStylesheetSize = 65536\<rparr>
      else
        \<lparr>SupportsMediaQueries = False, SupportsPseudoSelectors = [],
         RequiresInlineStyles = True, MaxStylesheetSize = 32768\<rparr>)"

section \<open>The DOM node (internal/html/goquery.go)\<close>

text \<open>
  \<^verbatim>\<open>GoQueryNode\<close> wraps a selection of the goquery library. The model keeps what the
  methods used by the resolver and the driver read and write: the number of selected
  elements, the tag name, the \<^verbatim>\<open>style\<close> attribute, and goquery's selector test
  \<^verbatim>\<open>Is\<close>, which is outside this repository and therefore a field.
\<close>

record Node =
  selectionLength :: nat
  TagName :: string
  styleAttr :: "string option"
  Is :: "string \<Rightarrow> bool"

datatype error = Error string

definition GetInlineStyle :: "Node \<Rightarrow> Styles" where
  "GetInlineStyle n =
     (case styleAttr n of
        None \<Rightarrow> []
      | Some a \<Rightarrow> if a = [] then [] else ParseInlineStyle a)"

text \<open>
  \<^verbatim>\<open>formatStyleString\<close> ranges over the map as it comes, without sorting, and prints
  the \<^verbatim>\<open>Property\<close> field of each declaration.
\<close>

definition formatStyleString :: "Styles \<Rightarrow> string" where
  "formatStyleString styles =
     (if length styles = 0 then []
      else Join (map (\<lambda>(key, declaration).
                        Property declaration @ '': '' @
                        (if Important declaration then Value declaration @ '' !important''
                         else Value declaration)) styles) ''; '')"


definition Matches :: "Node \<Rightarrow> string \<Rightarrow> error + bool" where
  "Matches n selector = (if selectionLength n = 0 then Inr False else Inr (Is n selector))"

section \<open>The resolver (internal/resolver/resolver.go)\<close>

record Resolver =
  stylesheet :: Stylesheet
  config :: Config

definition New :: "Stylesheet \<Rightarrow> Config \<Rightarrow> Resolver" where
  "New sheet cfg = \<lparr>stylesheet = sheet, config = cfg\<rparr>"

text \<open>
  \<^verbatim>\<open>findMatchingRules\<close>: a rule whose selector test fails with an error is skipped.
  The function never returns an error itself. Each match points to its own rule, as
  Go does from version 1.22 on; before, \<^verbatim>\<open>&rule\<close> is the address of the one loop
  variable and every match reads the \<^verbatim>\<open>SourceOrder\<close> of the last rule of the sheet.
  The rules of a parsed sheet are in ascending source order and \<^verbatim>\<open>shouldReplace\<close>
  lets the later of two equal entries win, so both readings give the same cascade.
\<close>

fun findMatchingLoop :: "Node \<Rightarrow> Rule list \<Rightarrow> MatchResult list \<Rightarrow> MatchResult list" where
  "findMatchingLoop node [] matches = matches"
| "findMatchingLoop node (rule # rest) matches =
     (case Matches node (Selector rule) of
        Inl err \<Rightarrow> findMatchingLoop node rest matches
      | Inr isMatch \<Rightarrow>
          if isMatch
          then findMatchingLoop node rest
                 (matches @ [\<lparr>MatchRule = rule, MatchSpecificity = RuleSpecificity rule,
                              MatchDeclarations = Declarations rule\<rparr>])
          else findMatchingLoop node rest matches)"

definition findMatchingRules :: "Resolver \<Rightarrow> Node \<Rightarrow> error + MatchResult list" where
  "findMatchingRules r node = Inr (findMatchingLoop node (Rules (stylesheet r)) [])"

text \<open>
  The body of the loop of \<^verbatim>\<open>filterEmailSafeStyles\<close> for one entry of the styles,
  and the loop, filling \<^verbatim>\<open>filtered\<close>.
\<close>

definition filterStep :: "Config \<Rightarrow> EmailClientCompatibility \<Rightarrow> string \<Rightarrow> Declaration \<Rightarrow> Styles \<Rightarrow> Styles" where
  "filterStep cfg compatibility property declaration filtered =
     (if IsEmailSafeProperty property then AList.update property declaration filtered
      else if property = ''position'' then
        (if \<not> RequiresInlineStyles compatibility
         then AList.update property declaration filtered else filtered)
      else if property = ''float'' then
        (if TargetEmailClient cfg \<noteq> ''outlook''
         then AList.update property declaration filtered else filtered)
      else if property = ''display'' then
        (if Value declaration = ''block'' \<or> Value declaration = ''inline'' \<or>
            Value declaration = ''table'' \<or> Value declaration = ''table-cell''
         then AList.update property declaration filtered else filtered)
      else
        (if \<not> RequiresInlineStyles compatibility
         then AList.update property declaration filtered else filtered))"

primrec filterLoop :: "Config \<Rightarrow> EmailClientCompatibility \<Rightarrow> Styles \<Rightarrow> Styles \<Rightarrow> Styles" where
  "filterLoop cfg compatibility [] filtered = filtered"
| "filterLoop cfg compatibility (entry # rest) filtered =
     filterLoop cfg compatibility rest
       (filterStep cfg compatibility (fst entry) (snd entry) filtered)"

definition filterEmailSafeStyles :: "Resolver \<Rightarrow> Styles \<Rightarrow> Styles" where
  "filterEmailSafeStyles r styles =
     (if \<not> EmailClientOptimizations (config r) then styles
      else filterLoop (config r) (GetCompatibilityProfile (TargetEmailClient (config r))) styles [])"

definition ResolveStyles :: "Resolver \<Rightarrow> Node \<Rightarrow> error + Styles" where
  "ResolveStyles r node =
     (case findMatchingRules r node of
        Inl err \<Rightarrow> Inl (Error ''failed to find matching rules'')
      | Inr matchingRules \<Rightarrow>
          (let inlineStyles = GetInlineStyle node;
               finalStyles = applyCascade matchingRules inlineStyles
           in if EmailClientOptimizations (config r)
              then Inr (filterEmailSafeStyles r finalStyles)
              else Inr finalStyles))"

text \<open>\<^verbatim>\<open>StylesString\<close> sorts the keys with \<^verbatim>\<open>sort.Strings\<close>, which orders byte strings
  lexicographically.\<close>

definition StylesString :: "Styles \<Rightarrow> string" where
  "StylesString styles =
     (if length styles = 0 then []
      else Join (map (\<lambda>property.
                        (case map_of styles property of
                           None \<Rightarrow> property @ '': ''
                         | Some declaration \<Rightarrow>
                             property @ '': '' @
                             (if Important declaration then Value declaration @ '' !important''
                              else Value declaration)))
                     (sort (map fst styles))) ''; '')"





section \<open>The inlining driver\<close>





section \<open>Scenarios\<close>


definition outlookConfig :: Config where
  "outlookConfig = Default\<lparr>TargetEmailClient := ''outlook''\<rparr>"

text \<open>\<^verbatim>\<open><div class="x">x</div>\<close>\<close>

definition divOfClassX :: Node where
  "divOfClassX =
     \<lparr>selectionLength = 1, TagName = ''div'', styleAttr = None,
      Is = (\<lambda>selector. selector \<in> set [''.x'', ''div'', ''div.x'', ''*''])\<rparr>"


text \<open>\<^verbatim>\<open><p>x</p>\<close> and \<^verbatim>\<open><p style="color: green">x</p>\<close>\<close>

definition plainParagraph :: Node where
  "plainParagraph =
     \<lparr>selectionLength = 1, TagName = ''p'', styleAttr = None,
      Is = (\<lambda>selector. selector \<in> set [''p'', ''*''])\<rparr>"

definition greenParagraph :: Node where
  "greenParagraph =
     \<lparr>selectionLength = 1, TagName = ''p'', styleAttr = Some ''color: green'',
      Is = (\<lambda>selector. selector \<in> set [''p'', ''*''])\<rparr>"

definition policySheet :: Stylesheet where
  "policySheet = Parse ''.x{float:left;color:red}''"

definition colorRed :: Declaration where
  "colorRed = \<lparr>Property = ''color'', Value = ''red'', Important = False\<rparr>"

definition colorRedImportant :: Declaration where
  "colorRedImportant = \<lparr>Property = ''color'', Value = ''red'', Important = True\<rparr>"

definition colorBlue :: Declaration where
  "colorBlue = \<lparr>Property = ''color'', Value = ''blue'', Important = False\<rparr>"

definition colorGreen :: Declaration where
  "colorGreen = \<lparr>Property = ''color'', Value = ''green'', Important = False\<rparr>"

definition widthOne :: Declaration where
  "widthOne = \<lparr>Property = ''width'', Value = ''1px'', Important = False\<rparr>"

definition widthTwo :: Declaration where
  "widthTwo = \<lparr>Property = ''width'', Value = ''2px'', Important = False\<rparr>"

definition floatLeft :: Declaration where
  "floatLeft = \<lparr>Property = ''float'', Value = ''left'', Important = False\<rparr>"

definition displayFlex :: Declaration where
  "displayFlex = \<lparr>Property = ''display'', Value = ''flex'', Important = False\<rparr>"

section \<open>Properties of the merge\<close>

lemma map_of_mergeExisting:
  "distinct (map fst existing) \<Longrightarrow>
   map_of (mergeExisting existing merged) p =
     (case map_of existing p of None \<Rightarrow> map_of merged p | Some d \<Rightarrow> Some d)"
proof (induction existing arbitrary: merged)
  case Nil
  show ?case by simp
next
  case (Cons a existing)
  obtain k d where a: "a = (k, d)" by (cases a)
  from Cons.prems a have nk: "k \<notin> fst ` set existing" and dist: "distinct (map fst existing)"
    by auto
  from nk have none: "map_of existing k = None"
    by (simp add: map_of_eq_None_iff)
  show ?case
    using Cons.IH [OF dist, of "AList.update k d merged"] none
    by (auto simp: a AList.update_conv' split: option.splits)
qed


lemma distinct_mergeExisting:
  "distinct (map fst merged) \<Longrightarrow> distinct (map fst (mergeExisting existing merged))"
  by (induction existing arbitrary: merged) (auto simp: AList.distinct_update)

text \<open>What the merge stores for one property, from the two entries for it.\<close>

definition mergeChoice :: "Declaration option \<Rightarrow> Declaration option \<Rightarrow> Declaration option" where
  "mergeChoice e n =
     (case n of
        None \<Rightarrow> e
      | Some nd \<Rightarrow>
          (case e of
             None \<Rightarrow> Some nd
           | Some ed \<Rightarrow> if Important ed \<and> \<not> Important nd then Some ed else Some nd))"

lemma map_of_mergeNew:
  "distinct (map fst newStyles) \<Longrightarrow>
   map_of (mergeNew newStyles merged) p = mergeChoice (map_of merged p) (map_of newStyles p)"
proof (induction newStyles arbitrary: merged p)
  case Nil
  show ?case by (simp add: mergeChoice_def)
next
  case (Cons a newStyles)
  obtain k d where a: "a = (k, d)" by (cases a)
  from Cons.prems a have nk: "k \<notin> fst ` set newStyles" and dist: "distinct (map fst newStyles)"
    by auto
  from nk have none: "map_of newStyles k = None"
    by (simp add: map_of_eq_None_iff)
  show ?case
  proof (cases "p = k")
    case True
    show ?thesis
    proof (cases "map_of merged k")
      case None
      then show ?thesis
        using none True
        by (simp add: a Cons.IH [OF dist] mergeChoice_def AList.update_conv')
    next
      case (Some ed)
      then show ?thesis
        using none True
        by (simp add: a Cons.IH [OF dist] mergeChoice_def shouldReplaceDeclaration_def
              AList.update_conv')
    qed
  next
    case False
    then show ?thesis
      by (simp add: a Cons.IH [OF dist] AList.update_conv' split: option.splits)
  qed
qed

lemma map_of_MergeStyles:
  assumes "distinct (map fst existing)" and "distinct (map fst newStyles)"
  shows "map_of (MergeStyles existing newStyles) p =
           mergeChoice (map_of existing p) (map_of newStyles p)"
  using assms
  by (simp add: MergeStyles_def map_of_mergeNew map_of_mergeExisting split: option.splits)

lemma distinct_mergeNew:
  "distinct (map fst merged) \<Longrightarrow> distinct (map fst (mergeNew newStyles merged))"
proof (induction newStyles arbitrary: merged)
  case Nil
  then show ?case by simp
next
  case (Cons a newStyles)
  obtain k d where a: "a = (k, d)" by (cases a)
  show ?case
    unfolding a mergeNew.simps
    by (rule Cons.IH) (simp add: AList.distinct_update Cons.prems split: option.splits)
qed

lemma distinct_MergeStyles: "distinct (map fst (MergeStyles existing newStyles))"
  unfolding MergeStyles_def
  by (rule distinct_mergeNew) (simp add: distinct_mergeExisting)

lemma map_of_MergeStyles_new:
  assumes "distinct (map fst newStyles)"
  shows "map_of (MergeStyles existing newStyles) p =
           mergeChoice (map_of (mergeExisting existing []) p) (map_of newStyles p)"
  using assms by (simp add: MergeStyles_def map_of_mergeNew)

lemma mergeChoice_idem: "mergeChoice (mergeChoice e n) n = mergeChoice e n"
  by (simp add: mergeChoice_def split: option.splits)

text \<open>
  C8. \<^verbatim>\<open>MergeStyles\<close> starts from \<^verbatim>\<open>existing\<close>; for a property of \<^verbatim>\<open>newStyles\<close> it
  keeps the existing declaration exactly when that one is \<^verbatim>\<open>!important\<close> and the new one
  is not, and installs the new declaration otherwise. In particular, merging \<^verbatim>\<open>{p: d}\<close>
  with \<^verbatim>\<open>{p: d'}\<close> keeps \<^verbatim>\<open>d\<close> when \<^verbatim>\<open>d\<close> is important and \<^verbatim>\<open>d'\<close> is not.
\<close>

theorem MergeStyles_keeps_important:
  assumes "distinct (map fst existing)" and "distinct (map fst newStyles)"
  shows "map_of (MergeStyles existing newStyles) p =
           (case map_of newStyles p of
              None \<Rightarrow> map_of existing p
            | Some nd \<Rightarrow>
                (case map_of existing p of
                   None \<Rightarrow> Some nd
                 | Some ed \<Rightarrow> if Important ed \<and> \<not> Important nd then Some ed else Some nd))
         \<and> (Important d \<and> \<not> Important d' \<longrightarrow> MergeStyles [(q, d)] [(q, d')] = [(q, d)])"
proof
  show "map_of (MergeStyles existing newStyles) p =
           (case map_of newStyles p of
              None \<Rightarrow> map_of existing p
            | Some nd \<Rightarrow>
                (case map_of existing p of
                   None \<Rightarrow> Some nd
                 | Some ed \<Rightarrow> if Important ed \<and> \<not> Important nd then Some ed else Some nd))"
    using map_of_MergeStyles [OF assms, of p] by (simp add: mergeChoice_def)
  show "Important d \<and> \<not> Important d' \<longrightarrow> MergeStyles [(q, d)] [(q, d')] = [(q, d)]"
    by (simp add: MergeStyles_def shouldReplaceDeclaration_def)
qed

theorem MergeStyles_keeps_important_witness:
  "map_of (MergeStyles [(''color'', colorRedImportant), (''width'', widthOne)]
                       [(''color'', colorBlue), (''width'', widthTwo)]) ''color''
     = Some colorRedImportant
   \<and> MergeStyles [(''color'', colorRedImportant)] [(''color'', colorBlue)]
     = [(''color'', colorRedImportant)]"
proof -
  have d1: "distinct (map fst [(''color'', colorRedImportant), (''width'', widthOne)])"
    by simp
  have d2: "distinct (map fst [(''color'', colorBlue), (''width'', widthTwo)])"
    by simp
  show ?thesis
    using MergeStyles_keeps_important [OF d1 d2,
        where p = "''color''" and q = "''color''" and d = colorRedImportant and d' = colorBlue]
    by (simp add: colorRedImportant_def colorBlue_def)
qed

text \<open>
  C9. Merging is idempotent in its second argument: merging \<^verbatim>\<open>y\<close> into
  \<^verbatim>\<open>merge(x, y)\<close> gives the map \<^verbatim>\<open>merge(x, y)\<close> again.
\<close>

theorem MergeStyles_idempotent:
  assumes "distinct (map fst y)"
  shows "map_of (MergeStyles (MergeStyles x y) y) = map_of (MergeStyles x y)"
proof
  fix p
  have "map_of (MergeStyles (MergeStyles x y) y) p =
          mergeChoice (map_of (MergeStyles x y) p) (map_of y p)"
    using map_of_MergeStyles [OF distinct_MergeStyles assms] .
  also have "\<dots> = mergeChoice (mergeChoice (map_of (mergeExisting x []) p) (map_of y p)) (map_of y p)"
    by (simp add: map_of_MergeStyles_new [OF assms])
  also have "\<dots> = map_of (MergeStyles x y) p"
    by (simp add: mergeChoice_idem map_of_MergeStyles_new [OF assms])
  finally show "map_of (MergeStyles (MergeStyles x y) y) p = map_of (MergeStyles x y) p" .
qed

theorem MergeStyles_idempotent_witness:
  "map_of (MergeStyles (MergeStyles [(''color'', colorRedImportant)]
                                    [(''color'', colorBlue), (''width'', widthTwo)])
                       [(''color'', colorBlue), (''width'', widthTwo)])
   = map_of [(''color'', colorRedImportant), (''width'', widthTwo)]"
proof -
  have d: "distinct (map fst [(''color'', colorBlue), (''width'', widthTwo)])"
    by simp
  show ?thesis
    using MergeStyles_idempotent [OF d, of "[(''color'', colorRedImportant)]"]
    by (simp add: MergeStyles_def shouldReplaceDeclaration_def colorRedImportant_def colorBlue_def)
qed

section \<open>Properties of the cascade\<close>

text \<open>
  The two maps of the cascade always have the same keys, so a property that has no
  winner yet reads the zero entry, which every new entry replaces.
\<close>

definition sameKeys :: "cascadeState \<Rightarrow> bool" where
  "sameKeys st = (fst ` set (fst st) = fst ` set (snd st))"

lemma shouldReplace_zeroEntry: "shouldReplace property entry zeroEntry"
  by (simp add: shouldReplace_def zeroEntry_def)

lemma lookupEntry_absent: "property \<notin> fst ` set winningSpecs \<Longrightarrow> lookupEntry winningSpecs property = zeroEntry"
proof -
  assume "property \<notin> fst ` set winningSpecs"
  then have "map_of winningSpecs property = None"
    by (simp add: map_of_eq_None_iff)
  then show ?thesis
    by (simp add: lookupEntry_def)
qed

lemma cascadeStep_keys:
  assumes "sameKeys st"
  shows "fst ` set (fst (cascadeStep property declaration entry st)) = insert property (fst ` set (fst st))"
    and "sameKeys (cascadeStep property declaration entry st)"
proof -
  show "fst ` set (fst (cascadeStep property declaration entry st)) = insert property (fst ` set (fst st))"
  proof (cases "property \<in> fst ` set (snd st)")
    case True
    with assms have "insert property (fst ` set (fst st)) = fst ` set (fst st)"
      by (auto simp: sameKeys_def)
    then show ?thesis
      by (simp add: cascadeStep_def AList.dom_update)
  next
    case False
    then show ?thesis
      by (simp add: cascadeStep_def lookupEntry_absent shouldReplace_zeroEntry AList.dom_update)
  qed
  show "sameKeys (cascadeStep property declaration entry st)"
    using assms by (simp add: cascadeStep_def sameKeys_def AList.dom_update)
qed

lemma cascadeStep_distinct:
  "distinct (map fst (fst st)) \<Longrightarrow> distinct (map fst (fst (cascadeStep property declaration entry st)))"
  by (simp add: cascadeStep_def AList.distinct_update)

lemma applyDeclarations_keys:
  "sameKeys st \<Longrightarrow>
   fst ` set (fst (applyDeclarations match decls st)) = fst ` set decls \<union> fst ` set (fst st)
   \<and> sameKeys (applyDeclarations match decls st)"
proof (induction decls arbitrary: st)
  case Nil
  then show ?case by simp
next
  case (Cons a decls)
  obtain k d where a: "a = (k, d)" by (cases a)
  let ?e = "\<lparr>specificity = MatchSpecificity match, sourceOrder = SourceOrder (MatchRule match),
           important = Important d, isInline = False\<rparr>"
  from Cons.IH [OF cascadeStep_keys(2) [OF Cons.prems, of k d ?e]]
  show ?case
    by (simp add: a cascadeStep_keys(1) [OF Cons.prems])
qed

lemma applyDeclarations_distinct:
  "distinct (map fst (fst st)) \<Longrightarrow> distinct (map fst (fst (applyDeclarations match decls st)))"
proof (induction decls arbitrary: st)
  case Nil
  then show ?case by simp
next
  case (Cons a decls)
  obtain k d where a: "a = (k, d)" by (cases a)
  show ?case
    unfolding a applyDeclarations.simps
    by (rule Cons.IH, rule cascadeStep_distinct, rule Cons.prems)
qed

lemma applyMatches_keys:
  "sameKeys st \<Longrightarrow>
   fst ` set (fst (applyMatches matches st)) =
     (\<Union>m \<in> set matches. fst ` set (MatchDeclarations m)) \<union> fst ` set (fst st)
   \<and> sameKeys (applyMatches matches st)"
proof (induction matches arbitrary: st)
  case Nil
  then show ?case by simp
next
  case (Cons m matches)
  from applyDeclarations_keys [OF Cons.prems, of m "MatchDeclarations m"]
  have k: "fst ` set (fst (applyDeclarations m (MatchDeclarations m) st)) =
             fst ` set (MatchDeclarations m) \<union> fst ` set (fst st)"
    and s: "sameKeys (applyDeclarations m (MatchDeclarations m) st)"
    by simp_all
  from Cons.IH [OF s] show ?case
    by (simp add: k Un_assoc Un_commute Un_left_commute)
qed

lemma applyMatches_distinct:
  "distinct (map fst (fst st)) \<Longrightarrow> distinct (map fst (fst (applyMatches matches st)))"
  by (induction matches arbitrary: st) (auto simp: applyDeclarations_distinct)

lemma applyInline_keys:
  "sameKeys st \<Longrightarrow>
   fst ` set (fst (applyInline inlineStyles st)) = fst ` set inlineStyles \<union> fst ` set (fst st)"
proof (induction inlineStyles arbitrary: st)
  case Nil
  then show ?case by simp
next
  case (Cons a inlineStyles)
  obtain k d where a: "a = (k, d)" by (cases a)
  let ?e = "\<lparr>specificity = SpecificityFromInline (Important d), sourceOrder = 999999,
           important = Important d, isInline = True\<rparr>"
  from Cons.IH [OF cascadeStep_keys(2) [OF Cons.prems, of k d ?e]]
  show ?case
    by (simp add: a cascadeStep_keys(1) [OF Cons.prems])
qed

lemma applyInline_distinct:
  "distinct (map fst (fst st)) \<Longrightarrow> distinct (map fst (fst (applyInline inlineStyles st)))"
proof (induction inlineStyles arbitrary: st)
  case Nil
  then show ?case by simp
next
  case (Cons a inlineStyles)
  obtain k d where a: "a = (k, d)" by (cases a)
  show ?case
    unfolding a applyInline.simps
    by (rule Cons.IH, rule cascadeStep_distinct, rule Cons.prems)
qed

lemma applyCascade_keys:
  "fst ` set (applyCascade matches inlineStyles) =
     (\<Union>m \<in> set matches. fst ` set (MatchDeclarations m)) \<union> fst ` set inlineStyles"
proof -
  have e: "sameKeys ([], [])" by (simp add: sameKeys_def)
  from applyMatches_keys [OF e, of matches]
  have k: "fst ` set (fst (applyMatches matches ([], []))) =
             (\<Union>m \<in> set matches. fst ` set (MatchDeclarations m))"
    and s: "sameKeys (applyMatches matches ([], []))"
    by simp_all
  show ?thesis
    unfolding applyCascade_def applyInline_keys [OF s] k by (simp add: Un_commute)
qed

lemma applyCascade_distinct: "distinct (map fst (applyCascade matches inlineStyles))"
  unfolding applyCascade_def
  by (rule applyInline_distinct, rule applyMatches_distinct) simp

text \<open>
  C7. The cascade output has exactly one entry for each property that occurs in the
  declarations of a matching rule or in the inline style map: its keys are exactly
  those properties, and no key occurs twice.
\<close>

theorem applyCascade_one_entry_per_property:
  "(map_of (applyCascade matches inlineStyles) p \<noteq> None) =
     (p \<in> (\<Union>m \<in> set matches. fst ` set (MatchDeclarations m)) \<union> fst ` set inlineStyles)
   \<and> distinct (map fst (applyCascade matches inlineStyles))"
  using applyCascade_keys [of matches inlineStyles] applyCascade_distinct [of matches inlineStyles]
  by (simp add: map_of_eq_None_iff)

theorem applyCascade_one_entry_per_property_witness:
  "map_of (applyCascade
      [\<lparr>MatchRule = \<lparr>Selector = ''p'', RuleSpecificity = calculateSpecificity ''p'',
                      Declarations = [(''color'', colorRed)], SourceOrder = 0\<rparr>,
        MatchSpecificity = calculateSpecificity ''p'',
        MatchDeclarations = [(''color'', colorRed)]\<rparr>]
      [(''width'', widthOne)]) ''color'' \<noteq> None
   \<and> map_of (applyCascade
      [\<lparr>MatchRule = \<lparr>Selector = ''p'', RuleSpecificity = calculateSpecificity ''p'',
                      Declarations = [(''color'', colorRed)], SourceOrder = 0\<rparr>,
        MatchSpecificity = calculateSpecificity ''p'',
        MatchDeclarations = [(''color'', colorRed)]\<rparr>]
      [(''width'', widthOne)]) ''float'' = None"
  using applyCascade_one_entry_per_property
      [of "[\<lparr>MatchRule = \<lparr>Selector = ''p'', RuleSpecificity = calculateSpecificity ''p'',
                      Declarations = [(''color'', colorRed)], SourceOrder = 0\<rparr>,
        MatchSpecificity = calculateSpecificity ''p'',
        MatchDeclarations = [(''color'', colorRed)]\<rparr>]" "[(''width'', widthOne)]" "''color''"]
    applyCascade_one_entry_per_property
      [of "[\<lparr>MatchRule = \<lparr>Selector = ''p'', RuleSpecificity = calculateSpecificity ''p'',
                      Declarations = [(''color'', colorRed)], SourceOrder = 0\<rparr>,
        MatchSpecificity = calculateSpecificity ''p'',
        MatchDeclarations = [(''color'', colorRed)]\<rparr>]" "[(''width'', widthOne)]" "''float''"]
  by simp

section \<open>Properties of the email-safety filter and of the validation\<close>

text \<open>
  The policy of the filter in the words of its description: whether an entry of the
  winning map is kept.
\<close>

definition keepsProperty :: "Config \<Rightarrow> EmailClientCompatibility \<Rightarrow> string \<Rightarrow> Declaration \<Rightarrow> bool" where
  "keepsProperty cfg compatibility property declaration =
     (if IsEmailSafeProperty property then True
      else if property = ''position'' then \<not> RequiresInlineStyles compatibility
      else if property = ''float'' then TargetEmailClient cfg \<noteq> ''outlook''
      else if property = ''display'' then
        Value declaration \<in> {''block'', ''inline'', ''table'', ''table-cell''}
      else \<not> RequiresInlineStyles compatibility)"

lemma filterStep_map_of:
  "map_of (filterStep cfg compatibility k d filtered) p =
     (if p = k \<and> keepsProperty cfg compatibility k d then Some d else map_of filtered p)"
  by (simp add: filterStep_def keepsProperty_def AList.update_conv')

lemma filterLoop_map_of:
  "distinct (map fst styles) \<Longrightarrow>
   map_of (filterLoop cfg compatibility styles filtered) p =
     (case map_of styles p of
        None \<Rightarrow> map_of filtered p
      | Some d \<Rightarrow> if keepsProperty cfg compatibility p d then Some d else map_of filtered p)"
proof (induction styles arbitrary: filtered p)
  case Nil
  show ?case by simp
next
  case (Cons a styles)
  obtain k d where a: "a = (k, d)" by (cases a)
  from Cons.prems a have nk: "k \<notin> fst ` set styles" and dist: "distinct (map fst styles)"
    by auto
  from nk have none: "map_of styles k = None"
    by (simp add: map_of_eq_None_iff)
  show ?case
  proof (cases "p = k")
    case True
    then show ?thesis
      using none by (simp add: a Cons.IH [OF dist] filterStep_map_of)
  next
    case False
    then show ?thesis
      by (simp add: a Cons.IH [OF dist] filterStep_map_of split: option.splits)
  qed
qed








lemma ResolveStyles_eq:
  "ResolveStyles r node =
     Inr (filterEmailSafeStyles r
            (applyCascade (findMatchingLoop node (Rules (stylesheet r)) []) (GetInlineStyle node)))"
  by (simp add: ResolveStyles_def findMatchingRules_def filterEmailSafeStyles_def Let_def)

text \<open>
  C10. With \<^verbatim>\<open>EmailClientOptimizations\<close> set, the filter keeps an entry of the winning map
  as follows: an email-safe property always; \<^verbatim>\<open>position\<close> only when the profile of the
  target client does not require inline styles; \<^verbatim>\<open>float\<close> unless the target client is
  \<^verbatim>\<open>outlook\<close>; \<^verbatim>\<open>display\<close> only with one of the values \<^verbatim>\<open>block\<close>, \<^verbatim>\<open>inline\<close>,
  \<^verbatim>\<open>table\<close>, \<^verbatim>\<open>table-cell\<close>; any other property only when the profile does not require
  inline styles. With the flag unset nothing is filtered. \<^verbatim>\<open>ResolveStyles\<close> returns the
  filtered cascade.
\<close>

theorem filterEmailSafeStyles_policy:
  assumes "distinct (map fst styles)"
  shows "map_of (filterEmailSafeStyles r styles) p =
           (if \<not> EmailClientOptimizations (config r) then map_of styles p
            else case map_of styles p of
              None \<Rightarrow> None
            | Some d \<Rightarrow>
                if (if IsEmailSafeProperty p then True
                    else if p = ''position'' then
                      \<not> RequiresInlineStyles (GetCompatibilityProfile (TargetEmailClient (config r)))
                    else if p = ''float'' then TargetEmailClient (config r) \<noteq> ''outlook''
                    else if p = ''display'' then
                      Value d = ''block'' \<or> Value d = ''inline'' \<or> Value d = ''table'' \<or>
                      Value d = ''table-cell''
                    else \<not> RequiresInlineStyles (GetCompatibilityProfile (TargetEmailClient (config r))))
                then Some d else None)
         \<and> (\<not> EmailClientOptimizations (config r) \<longrightarrow> filterEmailSafeStyles r styles = styles)
         \<and> ResolveStyles r node =
             Inr (filterEmailSafeStyles r
                    (applyCascade (findMatchingLoop node (Rules (stylesheet r)) []) (GetInlineStyle node)))"
proof (intro conjI)
  show "map_of (filterEmailSafeStyles r styles) p =
           (if \<not> EmailClientOptimizations (config r) then map_of styles p
            else case map_of styles p of
              None \<Rightarrow> None
            | Some d \<Rightarrow>
                if (if IsEmailSafeProperty p then True
                    else if p = ''position'' then
                      \<not> RequiresInlineStyles (GetCompatibilityProfile (TargetEmailClient (config r)))
                    else if p = ''float'' then TargetEmailClient (config r) \<noteq> ''outlook''
                    else if p = ''display'' then
                      Value d = ''block'' \<or> Value d = ''inline'' \<or> Value d = ''table'' \<or>
                      Value d = ''table-cell''
                    else \<not> RequiresInlineStyles (GetCompatibilityProfile (TargetEmailClient (config r))))
                then Some d else None)"
    using filterLoop_map_of [OF assms, of "config r"
        "GetCompatibilityProfile (TargetEmailClient (config r))" "[]" p]
    by (simp add: filterEmailSafeStyles_def keepsProperty_def split: option.splits)
  show "\<not> EmailClientOptimizations (config r) \<longrightarrow> filterEmailSafeStyles r styles = styles"
    by (simp add: filterEmailSafeStyles_def)
  show "ResolveStyles r node =
             Inr (filterEmailSafeStyles r
                    (applyCascade (findMatchingLoop node (Rules (stylesheet r)) []) (GetInlineStyle node)))"
    by (rule ResolveStyles_eq)
qed

theorem filterEmailSafeStyles_policy_witness:
  "map_of (filterEmailSafeStyles (New policySheet outlookConfig)
        [(''float'', floatLeft), (''color'', colorRed), (''display'', displayFlex)])
      ''display'' = None"
proof -
  have d: "distinct (map fst [(''float'', floatLeft), (''color'', colorRed), (''display'', displayFlex)])"
    by simp
  show ?thesis
    using filterEmailSafeStyles_policy [OF d, of "New policySheet outlookConfig" "''display''" divOfClassX]
    by (simp add: New_def outlookConfig_def Default_def displayFlex_def IsEmailSafeProperty_def
          ToLower_def lowerChar_def)
qed








text \<open>
  Where the current winner has a specificity other than (0,0,0,0), the important
  declaration wins against the one that is not, whichever comes first.
\<close>

lemma shouldReplace_important:
  assumes "Inline (specificity existingEntry) \<noteq> 0 \<or> IDs (specificity existingEntry) \<noteq> 0 \<or>
           Classes (specificity existingEntry) \<noteq> 0 \<or> Elements (specificity existingEntry) \<noteq> 0"
  shows "important existingEntry \<Longrightarrow> \<not> important newEntry \<Longrightarrow>
           \<not> shouldReplace property newEntry existingEntry"
    and "important newEntry \<Longrightarrow> \<not> important existingEntry \<Longrightarrow>
           shouldReplace property newEntry existingEntry"
  using assms by (auto simp: shouldReplace_def)

text \<open>
  C1 at the universal selector. \<^verbatim>\<open>calculateSpecificity\<close> gives \<^verbatim>\<open>*\<close> the specificity
  (0,0,0,0), which \<^verbatim>\<open>shouldReplace\<close> reads as "no winner yet". With the style sheet
  \<^verbatim>\<open>*{color:red !important} p{color:blue}\<close> a paragraph gets \<^verbatim>\<open>color: blue\<close>, and with
  \<^verbatim>\<open>*{color:red !important}\<close> a paragraph of inline style \<^verbatim>\<open>color: green\<close> keeps
  \<^verbatim>\<open>color: green\<close>: the declaration that is not important wins both times.
\<close>

theorem important_lost_at_zero_specificity:
  "RuleSpecificity (hd (Rules (Parse ''*{color:red !important} p{color:blue}'')))
     = \<lparr>Inline = 0, IDs = 0, Classes = 0, Elements = 0, SpecImportant = False\<rparr>
   \<and> ResolveStyles (New (Parse ''*{color:red !important} p{color:blue}'') Default) plainParagraph
     = Inr [(''color'', colorBlue)]
   \<and> ResolveStyles (New (Parse ''*{color:red !important}'') Default) greenParagraph
     = Inr [(''color'', colorGreen)]"
  by code_simp

text \<open>
  C3 at \<^verbatim>\<open>p::before\<close>. \<^verbatim>\<open>pseudoClassRegex\<close> finds \<^verbatim>\<open>:before\<close>, starting at the
  second colon; the match does not start with two colons, so it is counted as a class.
  The selector \<^verbatim>\<open>p\<close> alone has no class.
\<close>

theorem pseudo_element_counted_as_class:
  "pseudoClassRegex ''p::before'' = ['':before'']
   \<and> calculateSpecificity ''p::before''
     = \<lparr>Inline = 0, IDs = 0, Classes = 1, Elements = 3, SpecImportant = False\<rparr>
   \<and> calculateSpecificity ''p''
     = \<lparr>Inline = 0, IDs = 0, Classes = 0, Elements = 1, SpecImportant = False\<rparr>"
  by code_simp

text \<open>\<^verbatim>\<open>StylesString\<close> gives one string for a map, whatever the order of iteration.\<close>

lemma StylesString_deterministic:
  assumes "map_of a = map_of b" and "distinct (map fst a)" and "distinct (map fst b)"
  shows "StylesString a = StylesString b"
proof -
  have s: "fst ` set a = fst ` set b"
    using assms(1) by (metis dom_map_of_conv_image_fst)
  have "sort (map fst a) = sort (map fst b)"
    by (rule sorted_distinct_set_unique) (simp_all add: assms(2,3) s)
  moreover have "(length a = 0) = (length b = 0)"
    using s by (cases a; cases b) auto
  ultimately show ?thesis
    by (simp add: StylesString_def assms(1))
qed

text \<open>
  C6 on the write-back path. The same map of two entries, ranged over in its two
  orders, gives two different strings from \<^verbatim>\<open>formatStyleString\<close>, and the second is
  not sorted by property name; \<^verbatim>\<open>StylesString\<close> gives the same string for both.
\<close>

theorem formatStyleString_depends_on_order:
  "map_of [(''color'', colorRed), (''width'', widthOne)]
     = map_of [(''width'', widthOne), (''color'', colorRed)]
   \<and> formatStyleString [(''color'', colorRed), (''width'', widthOne)] = ''color: red; width: 1px''
   \<and> formatStyleString [(''width'', widthOne), (''color'', colorRed)] = ''width: 1px; color: red''
   \<and> StylesString [(''color'', colorRed), (''width'', widthOne)] = ''color: red; width: 1px''
   \<and> StylesString [(''width'', widthOne), (''color'', colorRed)] = ''color: red; width: 1px''"
proof (intro conjI)
  show "map_of [(''color'', colorRed), (''width'', widthOne)]
          = map_of [(''width'', widthOne), (''color'', colorRed)]"
    by (rule ext) simp
qed code_simp+

section \<open>Properties of the parser\<close>

lemma parseRules_acc: "parseRules ms i rules = rules @ parseRules ms i []"
proof (induction ms arbitrary: i rules)
  case Nil
  show ?case by simp
next
  case (Cons m ms)
  show ?case
    using Cons.IH [of "i + 1" "rules @ [\<lparr>Selector = TrimSpace (fst m),
                        RuleSpecificity = calculateSpecificity (TrimSpace (fst m)),
                        Declarations = parseDeclarations (TrimSpace (snd m)),
                        SourceOrder = i\<rparr>]"]
      Cons.IH [of "i + 1" "[\<lparr>Selector = TrimSpace (fst m),
                        RuleSpecificity = calculateSpecificity (TrimSpace (fst m)),
                        Declarations = parseDeclarations (TrimSpace (snd m)),
                        SourceOrder = i\<rparr>]"]
      Cons.IH [of "i + 1" rules]
    by (simp add: Let_def)
qed

lemma ruleRegex_single:
  assumes "sel \<noteq> []" and "CHR ''{'' \<notin> set sel" and "CHR ''}'' \<notin> set body"
  shows "ruleRegex (sel @ ''{'' @ body @ ''}'') = [(sel, body)]"
proof -
  obtain c cs where sel: "sel = c # cs" using assms(1) by (cases sel) auto
  have c: "c \<noteq> CHR ''{''" and cs: "\<forall>x \<in> set cs. x \<noteq> CHR ''{''"
    using assms(2) sel by auto
  have d1: "dropWhile (\<lambda>x. x \<noteq> CHR ''{'') (cs @ CHR ''{'' # body @ ''}'') = CHR ''{'' # body @ ''}''"
    using cs by (simp add: dropWhile_append3)
  have t1: "takeWhile (\<lambda>x. x \<noteq> CHR ''{'') (cs @ CHR ''{'' # body @ ''}'') = cs"
    using cs by (simp add: takeWhile_tail)
  have b: "\<forall>x \<in> set body. x \<noteq> CHR ''}''"
    using assms(3) by auto
  have d2: "dropWhile (\<lambda>x. x \<noteq> CHR ''}'') (body @ ''}'') = ''}''"
    using b by (simp add: dropWhile_append3)
  have t2: "takeWhile (\<lambda>x. x \<noteq> CHR ''}'') (body @ ''}'') = body"
    using b by (simp add: takeWhile_tail)
  show ?thesis
    unfolding sel using c d1 t1 d2 t2 by simp
qed

lemma removeComments_id: "CHR ''/'' \<notin> set s \<Longrightarrow> removeComments s = s"
  by (induction s rule: removeComments.induct) auto

lemma extractAtRules_id: "CHR ''@'' \<notin> set s \<Longrightarrow> extractAtRules s = s"
  by (induction s) auto

lemma importantAt_bang: "importantAt m \<Longrightarrow> \<exists>cs. m = CHR ''!'' # cs"
  by (cases m) (simp_all add: importantAt_def)

lemma dropWhile_important:
  "dropWhile isRegexSpace (''important'' @ ws2) = ''important'' @ ws2"
  by (simp add: isRegexSpace_def)

lemma importantAt_marker:
  assumes "list_all isRegexSpace ws1" and "list_all isRegexSpace ws2"
  shows "importantAt (''!'' @ ws1 @ ''important'' @ ws2)"
proof -
  have "dropWhile isRegexSpace (ws1 @ ''important'' @ ws2) = dropWhile isRegexSpace (''important'' @ ws2)"
    using assms(1) by (intro dropWhile_append2) (simp add: list_all_iff)
  then have d: "dropWhile isRegexSpace (ws1 @ ''important'' @ ws2) = ''important'' @ ws2"
    by (simp only: dropWhile_important)
  have "importantAt (CHR ''!'' # (ws1 @ ''important'' @ ws2))"
    unfolding importantAt_def list.case d using assms(2) by simp
  then show ?thesis by simp
qed

lemma importantAt_no_bang:
  assumes "importantAt (c # cs)"
  shows "CHR ''!'' \<notin> set cs"
proof
  assume b: "CHR ''!'' \<in> set cs"
  let ?d = "dropWhile isRegexSpace cs"
  from assms have u: "c = CHR ''!'' \<and> take 9 ?d = ''important'' \<and> list_all isRegexSpace (drop 9 ?d)"
    unfolding importantAt_def list.case .
  from u have t: "take 9 ?d = ''important''" by (rule conjunct2 [THEN conjunct1])
  from u have r: "list_all isRegexSpace (drop 9 ?d)" by (rule conjunct2 [THEN conjunct2])
  have "set (takeWhile isRegexSpace cs @ ?d) = set cs"
    by (simp only: takeWhile_dropWhile_id)
  with b have "CHR ''!'' \<in> set (takeWhile isRegexSpace cs) \<union> set ?d"
    by (simp only: set_append)
  then have "CHR ''!'' \<in> set (takeWhile isRegexSpace cs) \<or> CHR ''!'' \<in> set ?d"
    by (simp only: Un_iff)
  then show False
  proof
    assume "CHR ''!'' \<in> set (takeWhile isRegexSpace cs)"
    then have "isRegexSpace CHR ''!''" by (rule set_takeWhileD [THEN conjunct2])
    then show False by (simp add: isRegexSpace_def)
  next
    assume "CHR ''!'' \<in> set ?d"
    then have "CHR ''!'' \<in> set (take 9 ?d @ drop 9 ?d)"
      by (simp only: append_take_drop_id)
    then have "CHR ''!'' \<in> set ''important'' \<or> CHR ''!'' \<in> set (drop 9 ?d)"
      by (simp only: set_append Un_iff t)
    then show False
    proof
      assume "CHR ''!'' \<in> set ''important''"
      then show False by simp
    next
      assume "CHR ''!'' \<in> set (drop 9 ?d)"
      with r have "isRegexSpace CHR ''!''" by (simp only: list_all_iff)
      then show False by (simp add: isRegexSpace_def)
    qed
  qed
qed


lemma important_at_end:
  assumes "importantAt m"
  shows "importantReplaceAll (pre @ m) = pre \<and> importantMatchString (pre @ m)"
proof (induction pre)
  case Nil
  from importantAt_bang [OF assms] obtain cs where m: "m = CHR ''!'' # cs" ..
  from assms have "importantAt (CHR ''!'' # cs)" by (simp only: m)
  then show ?case by (simp only: m append_Nil importantReplaceAll.simps importantMatchString.simps if_True simp_thms)
next
  case (Cons a pre)
  from importantAt_bang [OF assms] obtain cs where m: "m = CHR ''!'' # cs" ..
  have "CHR ''!'' \<in> set (pre @ m)" by (simp add: m)
  with importantAt_no_bang [of a "pre @ m"] have n: "\<not> importantAt (a # pre @ m)" by blast
  from Cons.IH have r: "importantReplaceAll (pre @ m) = pre" and ms: "importantMatchString (pre @ m)"
    by simp_all
  show ?case
    by (simp only: append_Cons importantReplaceAll.simps importantMatchString.simps n r ms if_False simp_thms)
qed

lemma importantAt_decompose:
  assumes "importantAt m"
  shows "\<exists>w1 w2. list_all isRegexSpace w1 \<and> list_all isRegexSpace w2 \<and>
                 m = ''!'' @ w1 @ ''important'' @ w2"
proof -
  from importantAt_bang [OF assms] obtain cs where m: "m = CHR ''!'' # cs" ..
  let ?d = "dropWhile isRegexSpace cs"
  from assms have "importantAt (CHR ''!'' # cs)" by (simp only: m)
  then have u: "CHR ''!'' = CHR ''!'' \<and> take 9 ?d = ''important'' \<and> list_all isRegexSpace (drop 9 ?d)"
    unfolding importantAt_def list.case .
  from u have t: "take 9 ?d = ''important''" by (rule conjunct2 [THEN conjunct1])
  from u have r: "list_all isRegexSpace (drop 9 ?d)" by (rule conjunct2 [THEN conjunct2])
  have w1: "list_all isRegexSpace (takeWhile isRegexSpace cs)"
    unfolding list_all_iff by (blast dest: set_takeWhileD)
  have "cs = takeWhile isRegexSpace cs @ ?d"
    by (simp only: takeWhile_dropWhile_id)
  also have "?d = take 9 ?d @ drop 9 ?d"
    by (simp only: append_take_drop_id)
  finally have "cs = takeWhile isRegexSpace cs @ ''important'' @ drop 9 ?d"
    by (simp only: t)
  then have "m = ''!'' @ takeWhile isRegexSpace cs @ ''important'' @ drop 9 ?d"
    unfolding m by simp
  with w1 r show ?thesis by blast
qed

lemma importantMatchString_decompose:
  "importantMatchString v \<Longrightarrow>
   \<exists>p w1 w2. list_all isRegexSpace w1 \<and> list_all isRegexSpace w2 \<and>
             v = p @ ''!'' @ w1 @ ''important'' @ w2"
proof (induction v)
  case Nil
  then show ?case by simp
next
  case (Cons c cs)
  from Cons.prems have "importantAt (c # cs) \<or> importantMatchString cs"
    by (simp only: importantMatchString.simps)
  then show ?case
  proof
    assume "importantAt (c # cs)"
    from importantAt_decompose [OF this] obtain w1 w2
      where "list_all isRegexSpace w1" "list_all isRegexSpace w2"
        and "c # cs = ''!'' @ w1 @ ''important'' @ w2"
      by blast
    then have "list_all isRegexSpace w1 \<and> list_all isRegexSpace w2 \<and>
               c # cs = [] @ ''!'' @ w1 @ ''important'' @ w2"
      by (simp only: append_Nil simp_thms)
    then show ?thesis by blast
  next
    assume "importantMatchString cs"
    from Cons.IH [OF this] obtain p w1 w2
      where "list_all isRegexSpace w1" "list_all isRegexSpace w2"
        and e: "cs = p @ ''!'' @ w1 @ ''important'' @ w2"
      by blast
    moreover from e have "c # cs = (c # p) @ ''!'' @ w1 @ ''important'' @ w2"
      by (simp only: append_Cons)
    ultimately show ?thesis by blast
  qed
qed

lemma last_bang_unique:
  "CHR ''!'' \<notin> set t \<Longrightarrow> CHR ''!'' \<notin> set t' \<Longrightarrow>
   p @ CHR ''!'' # t = p' @ CHR ''!'' # t' \<Longrightarrow> p = p' \<and> t = t'"
proof (induction p arbitrary: p')
  case Nil
  show ?case
  proof (cases p')
    case Nil
    with Nil.prems show ?thesis by simp
  next
    case (Cons a q)
    with Nil.prems(3) have "t = q @ CHR ''!'' # t'" by simp
    with Nil.prems(1) show ?thesis by simp
  qed
next
  case (Cons b p)
  show ?case
  proof (cases p')
    case Nil
    with Cons.prems(3) have "t' = p @ CHR ''!'' # t" by simp
    with Cons.prems(2) show ?thesis by simp
  next
    case (Cons a q)
    with Cons.prems(3) have h: "b = a" and e: "p @ CHR ''!'' # t = q @ CHR ''!'' # t'"
      by simp_all
    from Cons.IH [OF Cons.prems(1) Cons.prems(2) e] h Cons show ?thesis by simp
  qed
qed

lemma regexSpace_no_bang: "list_all isRegexSpace ws \<Longrightarrow> CHR ''!'' \<notin> set ws"
proof
  assume "list_all isRegexSpace ws" and "CHR ''!'' \<in> set ws"
  then have "isRegexSpace CHR ''!''" by (simp only: list_all_iff)
  then show False by (simp add: isRegexSpace_def)
qed

lemma lowerChar_bang: "lowerChar CHR ''!'' = CHR ''!''"
  by code_simp

lemma lowerChar_regexSpace: "isRegexSpace c \<Longrightarrow> lowerChar c = c"
proof -
  assume "isRegexSpace c"
  then have c: "c \<in> set [CHR 0x09, CHR 0x0A, CHR 0x0C, CHR 0x0D, CHR '' '']"
    by (simp only: isRegexSpace_def)
  have "list_all (\<lambda>x. lowerChar x = x) [CHR 0x09, CHR 0x0A, CHR 0x0C, CHR 0x0D, CHR '' '']"
    by code_simp
  then have "\<forall>x \<in> set [CHR 0x09, CHR 0x0A, CHR 0x0C, CHR 0x0D, CHR '' '']. lowerChar x = x"
    by (simp only: list_all_iff)
  with c show ?thesis by blast
qed

lemma not_regexSpace_important: "c \<in> set ''important'' \<Longrightarrow> \<not> isRegexSpace c"
proof -
  assume c: "c \<in> set ''important''"
  have "list_all (\<lambda>x. \<not> isRegexSpace x) ''important''"
    by code_simp
  then have "\<forall>x \<in> set ''important''. \<not> isRegexSpace x"
    by (simp only: list_all_iff)
  with c show ?thesis by blast
qed

lemma marker_word:
  assumes "ToLower word = ''important''"
  shows "CHR ''!'' \<notin> set word" and "\<forall>c \<in> set word. \<not> isRegexSpace c" and "length word = 9"
proof -
  have s: "lowerChar ` set word = set ''important''"
  proof -
    have "set (map lowerChar word) = set ''important''"
      using assms by (simp only: ToLower_def)
    then show ?thesis by (simp only: set_map)
  qed
  show "CHR ''!'' \<notin> set word"
  proof
    assume "CHR ''!'' \<in> set word"
    then have "lowerChar CHR ''!'' \<in> lowerChar ` set word" by (rule imageI)
    then have "CHR ''!'' \<in> set ''important''" by (simp only: s lowerChar_bang)
    moreover have "CHR ''!'' \<notin> set ''important''" by code_simp
    ultimately show False by blast
  qed
  show "\<forall>c \<in> set word. \<not> isRegexSpace c"
  proof
    fix c assume c: "c \<in> set word"
    show "\<not> isRegexSpace c"
    proof
      assume sp: "isRegexSpace c"
      from c have "lowerChar c \<in> lowerChar ` set word" by (rule imageI)
      then have "c \<in> set ''important''" by (simp only: s lowerChar_regexSpace [OF sp])
      from not_regexSpace_important [OF this] sp show False ..
    qed
  qed
  have "length (ToLower word) = length word" by (simp only: ToLower_def length_map)
  then have "length ''important'' = length word" by (simp only: assms)
  moreover have "length ''important'' = 9" by code_simp
  ultimately show "length word = 9" by (simp only:)
qed

lemma other_case_no_match:
  assumes ws1: "list_all isRegexSpace ws1" and ws2: "list_all isRegexSpace ws2"
    and low: "ToLower word = ''important''" and other: "word \<noteq> ''important''"
  shows "\<not> importantMatchString (pre @ ''!'' @ ws1 @ word @ ws2)"
proof
  assume "importantMatchString (pre @ ''!'' @ ws1 @ word @ ws2)"
  from importantMatchString_decompose [OF this] obtain p w1 w2
    where w1: "list_all isRegexSpace w1" and w2: "list_all isRegexSpace w2"
      and e: "pre @ ''!'' @ ws1 @ word @ ws2 = p @ ''!'' @ w1 @ ''important'' @ w2"
    by blast
  have nb: "CHR ''!'' \<notin> set (ws1 @ word @ ws2)"
    using regexSpace_no_bang [OF ws1] regexSpace_no_bang [OF ws2] marker_word(1) [OF low] by simp
  have nb': "CHR ''!'' \<notin> set (w1 @ ''important'' @ w2)"
    using regexSpace_no_bang [OF w1] regexSpace_no_bang [OF w2] by simp
  from e have "pre @ CHR ''!'' # (ws1 @ word @ ws2) = p @ CHR ''!'' # (w1 @ ''important'' @ w2)"
    by simp
  from last_bang_unique [OF nb nb' this]
  have t: "ws1 @ word @ ws2 = w1 @ ''important'' @ w2" by (rule conjunct2)
  from marker_word(3) [OF low] obtain c cs where word: "word = c # cs"
    by (cases word) simp_all
  have nc: "\<not> isRegexSpace c"
    using marker_word(2) [OF low] by (simp add: word)
  have "dropWhile isRegexSpace (ws1 @ word @ ws2) = dropWhile isRegexSpace (word @ ws2)"
    using ws1 by (intro dropWhile_append2) (simp add: list_all_iff)
  also have "\<dots> = word @ ws2"
    using nc by (simp add: word)
  finally have d1: "dropWhile isRegexSpace (ws1 @ word @ ws2) = word @ ws2" .
  have "dropWhile isRegexSpace (w1 @ ''important'' @ w2) = dropWhile isRegexSpace (''important'' @ w2)"
    using w1 by (intro dropWhile_append2) (simp add: list_all_iff)
  then have d2: "dropWhile isRegexSpace (w1 @ ''important'' @ w2) = ''important'' @ w2"
    by (simp only: dropWhile_important)
  from t have "dropWhile isRegexSpace (ws1 @ word @ ws2) = dropWhile isRegexSpace (w1 @ ''important'' @ w2)"
    by (rule arg_cong)
  then have "word @ ws2 = ''important'' @ w2"
    by (simp only: d1 d2)
  then have "take (length word) (word @ ws2) = take (length word) (''important'' @ w2)"
    by (rule arg_cong)
  then have "word = take 9 (''important'' @ w2)"
    by (simp add: marker_word(3) [OF low])
  then have "word = ''important''" by simp
  with other show False ..
qed

lemma parseDeclarations_single:
  "smartSplit declarationsText (CHR '';'') = [piece] \<Longrightarrow> parseDeclaration piece = Some d \<Longrightarrow>
   parseDeclarations declarationsText = [(Property d, d)]"
  by (simp add: parseDeclarations_def)

text \<open>
  C5, as the code has it. \<^verbatim>\<open>importantRegex\<close> has no case-folding flag. When the value
  of a declaration (the text behind the first unquoted colon, trimmed) ends with the
  marker in lower case, that is \<^verbatim>\<open>!\<close>, optional white space, \<^verbatim>\<open>important\<close> and optional
  white space, the scanner stores the declaration with \<^verbatim>\<open>Important = true\<close> and with
  the trimmed text before the marker as its value. When the value ends in the same way
  but with the word in any other letter case, the scanner stores the declaration with
  \<^verbatim>\<open>Important = false\<close> and with the whole value, the marker included.
\<close>

theorem parseDeclarations_lowercase_important:
  assumes colon: "findUnquotedChar (TrimSpace piece) (CHR '':'') = i" and found: "i \<noteq> - 1"
    and nonempty: "TrimSpace (take (nat i) (TrimSpace piece)) \<noteq> []"
    and ws1: "list_all isRegexSpace ws1" and ws2: "list_all isRegexSpace ws2"
  shows "(TrimSpace (drop (nat (i + 1)) (TrimSpace piece)) = pre @ ''!'' @ ws1 @ ''important'' @ ws2 \<longrightarrow>
            parseDeclaration piece =
              Some \<lparr>Property = ToLower (TrimSpace (take (nat i) (TrimSpace piece))),
                    Value = TrimSpace pre, Important = True\<rparr>
          \<and> (smartSplit declarationsText (CHR '';'') = [piece] \<longrightarrow>
               parseDeclarations declarationsText =
                 [(ToLower (TrimSpace (take (nat i) (TrimSpace piece))),
                   \<lparr>Property = ToLower (TrimSpace (take (nat i) (TrimSpace piece))),
                    Value = TrimSpace pre, Important = True\<rparr>)]))
       \<and> (TrimSpace (drop (nat (i + 1)) (TrimSpace piece)) = pre @ ''!'' @ ws1 @ word @ ws2 \<and>
          ToLower word = ''important'' \<and> word \<noteq> ''important'' \<longrightarrow>
            parseDeclaration piece =
              Some \<lparr>Property = ToLower (TrimSpace (take (nat i) (TrimSpace piece))),
                    Value = pre @ ''!'' @ ws1 @ word @ ws2, Important = False\<rparr>
          \<and> (smartSplit declarationsText (CHR '';'') = [piece] \<longrightarrow>
               parseDeclarations declarationsText =
                 [(ToLower (TrimSpace (take (nat i) (TrimSpace piece))),
                   \<lparr>Property = ToLower (TrimSpace (take (nat i) (TrimSpace piece))),
                    Value = pre @ ''!'' @ ws1 @ word @ ws2, Important = False\<rparr>)]))"
proof -
  let ?P = "ToLower (TrimSpace (take (nat i) (TrimSpace piece)))"
  have ne: "TrimSpace piece \<noteq> []"
  proof
    assume e: "TrimSpace piece = []"
    show False using nonempty unfolding e by (simp add: TrimSpace_def)
  qed
  have lower: "parseDeclaration piece = Some \<lparr>Property = ?P, Value = TrimSpace pre, Important = True\<rparr>"
    if valueText: "TrimSpace (drop (nat (i + 1)) (TrimSpace piece)) = pre @ ''!'' @ ws1 @ ''important'' @ ws2"
  proof -
    let ?v = "pre @ ''!'' @ ws1 @ ''important'' @ ws2"
    have vne: "?v \<noteq> []" by simp
    from important_at_end [OF importantAt_marker [OF ws1 ws2], of pre]
    have rep: "importantReplaceAll ?v = pre" and mat: "importantMatchString ?v"
      by simp_all
    show ?thesis
      unfolding parseDeclaration_def Let_def colon valueText
      using ne found nonempty vne rep mat by (simp only: if_False if_True simp_thms)
  qed
  have other: "parseDeclaration piece =
      Some \<lparr>Property = ?P, Value = pre @ ''!'' @ ws1 @ word @ ws2, Important = False\<rparr>"
    if valueText: "TrimSpace (drop (nat (i + 1)) (TrimSpace piece)) = pre @ ''!'' @ ws1 @ word @ ws2"
      and low: "ToLower word = ''important''" and diff: "word \<noteq> ''important''"
  proof -
    let ?v = "pre @ ''!'' @ ws1 @ word @ ws2"
    have vne: "?v \<noteq> []" by simp
    have mat: "\<not> importantMatchString ?v"
      by (rule other_case_no_match [OF ws1 ws2 low diff])
    show ?thesis
      unfolding parseDeclaration_def Let_def colon valueText
      using ne found nonempty vne mat by (simp only: if_False if_True simp_thms)
  qed
  show ?thesis
  proof (intro conjI impI)
    assume a: "TrimSpace (drop (nat (i + 1)) (TrimSpace piece)) = pre @ ''!'' @ ws1 @ ''important'' @ ws2"
    show "parseDeclaration piece = Some \<lparr>Property = ?P, Value = TrimSpace pre, Important = True\<rparr>"
      by (rule lower [OF a])
    assume s: "smartSplit declarationsText (CHR '';'') = [piece]"
    from parseDeclarations_single [OF s lower [OF a]]
    show "parseDeclarations declarationsText =
            [(?P, \<lparr>Property = ?P, Value = TrimSpace pre, Important = True\<rparr>)]"
      by simp
  next
    assume b: "TrimSpace (drop (nat (i + 1)) (TrimSpace piece)) = pre @ ''!'' @ ws1 @ word @ ws2 \<and>
          ToLower word = ''important'' \<and> word \<noteq> ''important''"
    then have o: "parseDeclaration piece =
      Some \<lparr>Property = ?P, Value = pre @ ''!'' @ ws1 @ word @ ws2, Important = False\<rparr>"
      using other by blast
    show "parseDeclaration piece =
      Some \<lparr>Property = ?P, Value = pre @ ''!'' @ ws1 @ word @ ws2, Important = False\<rparr>"
      by (rule o)
    assume s: "smartSplit declarationsText (CHR '';'') = [piece]"
    from parseDeclarations_single [OF s o]
    show "parseDeclarations declarationsText =
            [(?P, \<lparr>Property = ?P, Value = pre @ ''!'' @ ws1 @ word @ ws2, Important = False\<rparr>)]"
      by simp
  qed
qed

theorem parseDeclarations_lowercase_important_witness:
  "parseDeclarations ''color: red ! important'' = [(''color'', colorRedImportant)]
   \<and> parseDeclarations ''color: red ! Important''
       = [(''color'', \<lparr>Property = ''color'', Value = ''red ! Important'', Important = False\<rparr>)]"
proof
  have colon: "findUnquotedChar (TrimSpace ''color: red ! important'') (CHR '':'') = 5"
    by code_simp
  have found: "(5::int) \<noteq> - 1" by simp
  have nonempty: "TrimSpace (take (nat 5) (TrimSpace ''color: red ! important'')) \<noteq> []"
    by code_simp
  have valueText: "TrimSpace (drop (nat (5 + 1)) (TrimSpace ''color: red ! important''))
      = ''red '' @ ''!'' @ '' '' @ ''important'' @ []"
    by code_simp
  have ws1: "list_all isRegexSpace '' ''" by code_simp
  have ws2: "list_all isRegexSpace []" by simp
  have split: "smartSplit ''color: red ! important'' (CHR '';'') = [''color: red ! important'']"
    by code_simp
  note r = parseDeclarations_lowercase_important
      [OF colon found nonempty ws1 ws2, THEN conjunct1, THEN mp, OF valueText,
       THEN conjunct2, THEN mp, OF split]
  have ev: "ToLower (TrimSpace (take (nat 5) (TrimSpace ''color: red ! important''))) = ''color''"
    by code_simp
  have tv: "TrimSpace ''red '' = ''red''"
    by code_simp
  show "parseDeclarations ''color: red ! important'' = [(''color'', colorRedImportant)]"
    by (simp only: r ev tv colorRedImportant_def)
next
  have colon: "findUnquotedChar (TrimSpace ''color: red ! Important'') (CHR '':'') = 5"
    by code_simp
  have found: "(5::int) \<noteq> - 1" by simp
  have nonempty: "TrimSpace (take (nat 5) (TrimSpace ''color: red ! Important'')) \<noteq> []"
    by code_simp
  have valueText: "TrimSpace (drop (nat (5 + 1)) (TrimSpace ''color: red ! Important''))
      = ''red '' @ ''!'' @ '' '' @ ''Important'' @ []
      \<and> ToLower ''Important'' = ''important'' \<and> ''Important'' \<noteq> ''important''"
    by code_simp
  have ws1: "list_all isRegexSpace '' ''" by code_simp
  have ws2: "list_all isRegexSpace []" by simp
  have split: "smartSplit ''color: red ! Important'' (CHR '';'') = [''color: red ! Important'']"
    by code_simp
  note r = parseDeclarations_lowercase_important
      [OF colon found nonempty ws1 ws2, THEN conjunct2, THEN mp, OF valueText,
       THEN conjunct2, THEN mp, OF split]
  have ev: "ToLower (TrimSpace (take (nat 5) (TrimSpace ''color: red ! Important''))) = ''color''"
    by code_simp
  have tv: "''red '' @ ''!'' @ '' '' @ ''Important'' @ [] = ''red ! Important''"
    by simp
  show "parseDeclarations ''color: red ! Important''
       = [(''color'', \<lparr>Property = ''color'', Value = ''red ! Important'', Important = False\<rparr>)]"
    by (simp only: r ev tv)
qed

text \<open>
  The marker in upper case: the declaration is stored as not important and the marker
  stays in its value.
\<close>

theorem uppercase_important_not_recognised:
  "parseDeclarations ''color: red !IMPORTANT''
     = [(''color'', \<lparr>Property = ''color'', Value = ''red !IMPORTANT'', Important = False\<rparr>)]"
  by code_simp

lemma parseRules_enumerate:
  "parseRules ms (int n) [] =
     map (\<lambda>(i, m). \<lparr>Selector = TrimSpace (fst m),
                     RuleSpecificity = calculateSpecificity (TrimSpace (fst m)),
                     Declarations = parseDeclarations (TrimSpace (snd m)),
                     SourceOrder = int i\<rparr>)
         (filter (\<lambda>(i, m). TrimSpace (fst m) \<noteq> [] \<and> TrimSpace (snd m) \<noteq> [])
                 (List.enumerate n ms))"
proof (induction ms arbitrary: n)
  case Nil
  show ?case by simp
next
  case (Cons m ms)
  have s: "int n + 1 = int (Suc n)" by simp
  show ?case
    using Cons.IH [of "Suc n"]
      parseRules_acc [of ms "int (Suc n)" "[\<lparr>Selector = TrimSpace (fst m),
                     RuleSpecificity = calculateSpecificity (TrimSpace (fst m)),
                     Declarations = parseDeclarations (TrimSpace (snd m)),
                     SourceOrder = int n\<rparr>]"]
    by (simp add: Let_def s)
qed

text \<open>
  C4, as the code has it. \<^verbatim>\<open>Parse\<close> does not split a selector at its commas: every
  selector-and-block pair that \<^verbatim>\<open>ruleRegex\<close> finds gives one rule, whose selector is
  the whole trimmed selector text, unless the trimmed selector or the trimmed block is
  empty, and then it gives none. In particular a text that is one pair, with neither
  comment nor at-rule characters, gives exactly one rule, commas in the selector or not.
\<close>

theorem Parse_one_rule_per_pair:
  "Rules (Parse cssText) =
     map (\<lambda>(i, m). \<lparr>Selector = TrimSpace (fst m),
                     RuleSpecificity = calculateSpecificity (TrimSpace (fst m)),
                     Declarations = parseDeclarations (TrimSpace (snd m)),
                     SourceOrder = int i\<rparr>)
         (filter (\<lambda>(i, m). TrimSpace (fst m) \<noteq> [] \<and> TrimSpace (snd m) \<noteq> [])
                 (List.enumerate 0 (ruleRegex (extractAtRules (removeComments cssText)))))
   \<and> (set ''{/@'' \<inter> set selector = {} \<and> set ''}/@'' \<inter> set block = {} \<and>
        TrimSpace selector \<noteq> [] \<and> TrimSpace block \<noteq> [] \<longrightarrow>
        Rules (Parse (selector @ ''{'' @ block @ ''}'')) =
          [\<lparr>Selector = TrimSpace selector,
            RuleSpecificity = calculateSpecificity (TrimSpace selector),
            Declarations = parseDeclarations (TrimSpace block),
            SourceOrder = 0\<rparr>])"
proof
  show "Rules (Parse cssText) =
     map (\<lambda>(i, m). \<lparr>Selector = TrimSpace (fst m),
                     RuleSpecificity = calculateSpecificity (TrimSpace (fst m)),
                     Declarations = parseDeclarations (TrimSpace (snd m)),
                     SourceOrder = int i\<rparr>)
         (filter (\<lambda>(i, m). TrimSpace (fst m) \<noteq> [] \<and> TrimSpace (snd m) \<noteq> [])
                 (List.enumerate 0 (ruleRegex (extractAtRules (removeComments cssText)))))"
    using parseRules_enumerate [of "ruleRegex (extractAtRules (removeComments cssText))" 0]
    by (simp add: Parse_def)
  show "set ''{/@'' \<inter> set selector = {} \<and> set ''}/@'' \<inter> set block = {} \<and>
        TrimSpace selector \<noteq> [] \<and> TrimSpace block \<noteq> [] \<longrightarrow>
        Rules (Parse (selector @ ''{'' @ block @ ''}'')) =
          [\<lparr>Selector = TrimSpace selector,
            RuleSpecificity = calculateSpecificity (TrimSpace selector),
            Declarations = parseDeclarations (TrimSpace block),
            SourceOrder = 0\<rparr>]"
  proof
    assume a: "set ''{/@'' \<inter> set selector = {} \<and> set ''}/@'' \<inter> set block = {} \<and>
        TrimSpace selector \<noteq> [] \<and> TrimSpace block \<noteq> []"
    then have ne: "selector \<noteq> []" by (auto simp: TrimSpace_def)
    have nc: "CHR ''/'' \<notin> set (selector @ ''{'' @ block @ ''}'')"
      and na: "CHR ''@'' \<notin> set (selector @ ''{'' @ block @ ''}'')"
      and nb: "CHR ''{'' \<notin> set selector" and ne2: "CHR ''}'' \<notin> set block"
      using a by auto
    have "ruleRegex (extractAtRules (removeComments (selector @ ''{'' @ block @ ''}'')))
            = [(selector, block)]"
      unfolding removeComments_id [OF nc] extractAtRules_id [OF na]
      by (rule ruleRegex_single [OF ne nb ne2])
    then show "Rules (Parse (selector @ ''{'' @ block @ ''}'')) =
          [\<lparr>Selector = TrimSpace selector,
            RuleSpecificity = calculateSpecificity (TrimSpace selector),
            Declarations = parseDeclarations (TrimSpace block),
            SourceOrder = 0\<rparr>]"
      using a by (simp add: Parse_def Let_def)
  qed
qed

theorem Parse_one_rule_per_pair_witness:
  "map Selector (Rules (Parse ''.a, .b{margin:0}'')) = [''.a, .b'']"
proof -
  have h: "set ''{/@'' \<inter> set ''.a, .b'' = {} \<and> set ''}/@'' \<inter> set ''margin:0'' = {} \<and>
        TrimSpace ''.a, .b'' \<noteq> [] \<and> TrimSpace ''margin:0'' \<noteq> []"
    by code_simp
  have e: "''.a, .b'' @ ''{'' @ ''margin:0'' @ ''}'' = ''.a, .b{margin:0}''"
    by simp
  have t: "TrimSpace ''.a, .b'' = ''.a, .b''"
    by code_simp
  note r = Parse_one_rule_per_pair [of "[]" "''.a, .b''" "''margin:0''", THEN conjunct2, THEN mp, OF h]
  have "map Selector (Rules (Parse (''.a, .b'' @ ''{'' @ ''margin:0'' @ ''}''))) = [TrimSpace ''.a, .b'']"
    by (simp only: r list.map Rule.select_convs)
  then show ?thesis
    by (simp only: e t)
qed

text \<open>
  A selector list: \<^verbatim>\<open>h1, h2{color:red}\<close> gives one rule with the selector \<^verbatim>\<open>h1, h2\<close>,
  not one rule for \<^verbatim>\<open>h1\<close> and one for \<^verbatim>\<open>h2\<close>.
\<close>

theorem selector_list_not_split:
  "length (Rules (Parse ''h1, h2{color:red}'')) = 1
   \<and> map Selector (Rules (Parse ''h1, h2{color:red}'')) = [''h1, h2'']"
  by code_simp

end
